theory Spec2Isabelle
  imports Main
begin

section \<open>JavaScript values used by the subtitle readers\<close>

text \<open>
  A JavaScript string is a sequence of UTF-16 code units; \<open>length\<close>, indexing,
  \<open>slice\<close>, \<open>substring\<close> and \<open>indexOf\<close> all count code units. A code unit is
  modelled by its numeric value.
\<close>

type_synonym jschar = nat
type_synonym jsstring = "jschar list"

text \<open>ASCII literals of the examples are written as Isabelle strings and converted.\<close>

definition js :: "string \<Rightarrow> jsstring" where
  "js s = map of_char s"

text \<open>
  A cell of a JavaScript array of numbers: \<open>Some n\<close> is the number \<open>n\<close>, \<open>None\<close> is
  \<open>undefined\<close> (a hole, or a read outside the array).
\<close>

type_synonym cell = "int option"

definition js_get :: "'a option list \<Rightarrow> int \<Rightarrow> 'a option" where
  "js_get xs i = (if 0 \<le> i \<and> i < int (length xs) then xs ! nat i else None)"

text \<open>\<open>arr[i]\<close> on an array of objects: \<open>undefined\<close> outside the array.\<close>

definition js_index :: "'a list \<Rightarrow> int \<Rightarrow> 'a option" where
  "js_index xs i = (if 0 \<le> i \<and> i < int (length xs) then Some (xs ! nat i) else None)"

text \<open>
  \<open>arr[k] = v\<close>: inside the array the cell is overwritten; at or beyond its length the
  array grows, and the cells in between are holes.
\<close>

definition js_set :: "'a option list \<Rightarrow> nat \<Rightarrow> 'a \<Rightarrow> 'a option list" where
  "js_set xs k v =
     (if k < length xs then xs[k := Some v]
      else xs @ replicate (k - length xs) None @ [Some v])"

section \<open>Display units\<close>

text \<open>
  The objects pushed to \<open>displayUnits\<close> by \<open>processSubtitleText\<close> / \<open>processText\<close>:
  \<open>{ text, cleanedText, start, end }\<close>.
\<close>

record display_unit =
  du_text :: jsstring
  du_cleanedText :: jsstring
  du_start :: nat
  du_end :: nat

section \<open>SmartSubtitle.getCurrentUnit\<close>

text \<open>
  The three things the JavaScript function can hand back: a display unit, \<open>null\<close>,
  or \<open>undefined\<close> (what \<open>displayUnits[unitIndex]\<close> evaluates to when the index names
  no element).
\<close>

datatype 'u js_ref = Obj 'u | Null | Undefined

text \<open>
  \<^verbatim>\<open>
  getCurrentUnit(charIndex, charToUnitMap, displayUnits) {
      if (charIndex < charToUnitMap.length) {
          const unitIndex = charToUnitMap[charIndex];
          if (unitIndex !== -1 && unitIndex < displayUnits.length) {
              return displayUnits[unitIndex];
          }
      }
      return null;
  }
  \<close>
  With \<open>unitIndex\<close> \<open>undefined\<close> the comparison \<open>unitIndex < displayUnits.length\<close> is
  false (\<open>undefined\<close> converts to NaN).
\<close>

definition getCurrentUnit :: "int \<Rightarrow> cell list \<Rightarrow> 'u list \<Rightarrow> 'u js_ref" where
  "getCurrentUnit charIndex charToUnitMap displayUnits =
     (if charIndex < int (length charToUnitMap) then
        (case js_get charToUnitMap charIndex of
           None \<Rightarrow> Null
         | Some unitIndex \<Rightarrow>
             if unitIndex \<noteq> -1 \<and> unitIndex < int (length displayUnits) then
               (case js_index displayUnits unitIndex of
                  Some u \<Rightarrow> Obj u
                | None \<Rightarrow> Undefined)
             else Null)
      else Null)"

section \<open>The boundary handler of startReading\<close>

text \<open>
  The event of \<open>utterance.onboundary\<close>: its \<open>name\<close> and its \<open>charIndex\<close>
  (\<open>None\<close> when the engine leaves it undefined).
\<close>

record boundary_event =
  ev_name :: string
  ev_charIndex :: "nat option"

text \<open>What the handler does to the page and the window.\<close>

datatype effect = SetSubtitleHTML jsstring | AdjustWindowSize jsstring

text \<open>
  \<^verbatim>\<open>
  let currentUnitIndex = -1;
  utterance.onboundary = (event) => {
    if (event.name !== 'word' && event.name !== 'sentence') return;
    const charIndex = event.charIndex || 0;
    if (charIndex < charToUnitMap.length) {
      const unitIndex = charToUnitMap[charIndex];
      if (unitIndex !== -1 && unitIndex !== currentUnitIndex) {
        currentUnitIndex = unitIndex;
        if (displayUnits[unitIndex]) {
          this.elements.subtitle.innerHTML = displayUnits[unitIndex].text;
          this.adjustWindowSize(displayUnits[unitIndex].text);
        }
      }
    }
  };
  \<close>
  The closure variable \<open>currentUnitIndex\<close> is the state; the handler returns the new
  state and the effects it emitted, in order.
\<close>

definition initialUnitIndex :: cell where
  "initialUnitIndex = Some (-1)"

definition onboundary ::
  "cell list \<Rightarrow> display_unit list \<Rightarrow> cell \<Rightarrow> boundary_event \<Rightarrow> cell \<times> effect list" where
  "onboundary charToUnitMap displayUnits currentUnitIndex event =
     (if ev_name event \<noteq> ''word'' \<and> ev_name event \<noteq> ''sentence'' then (currentUnitIndex, [])
      else
        let charIndex = (case ev_charIndex event of None \<Rightarrow> 0 | Some n \<Rightarrow> n) in
        if charIndex < length charToUnitMap then
          (let unitIndex = charToUnitMap ! charIndex in
           if unitIndex \<noteq> Some (-1) \<and> unitIndex \<noteq> currentUnitIndex then
             (case (case unitIndex of None \<Rightarrow> None | Some k \<Rightarrow> js_index displayUnits k) of
                Some u \<Rightarrow> (unitIndex, [SetSubtitleHTML (du_text u), AdjustWindowSize (du_text u)])
              | None \<Rightarrow> (unitIndex, []))
           else (currentUnitIndex, []))
        else (currentUnitIndex, []))"

text \<open>The handler run over a stream of events, effects concatenated in order.\<close>

fun run_events ::
  "cell list \<Rightarrow> display_unit list \<Rightarrow> cell \<Rightarrow> boundary_event list \<Rightarrow> cell \<times> effect list" where
  "run_events m us cur [] = (cur, [])"
| "run_events m us cur (e # es) =
     (let (cur', out) = onboundary m us cur e;
          (cur'', out') = run_events m us cur' es
      in (cur'', out @ out'))"

fun is_show :: "effect \<Rightarrow> bool" where
  "is_show (SetSubtitleHTML t) = True"
| "is_show (AdjustWindowSize t) = False"

text \<open>An event resolves to unit \<open>k\<close> when it is a boundary kind and its offset's cell is \<open>k\<close>.\<close>

definition resolves_to :: "cell list \<Rightarrow> boundary_event \<Rightarrow> int \<Rightarrow> bool" where
  "resolves_to m e k =
     ((ev_name e = ''word'' \<or> ev_name e = ''sentence'') \<and>
      (case ev_charIndex e of None \<Rightarrow> 0 | Some n \<Rightarrow> n) < length m \<and>
      m ! (case ev_charIndex e of None \<Rightarrow> 0 | Some n \<Rightarrow> n) = Some k)"

section \<open>Character classes\<close>

text \<open>
  \<open>\s\<close> of a JavaScript regular expression, which is also what \<open>String.prototype.trim\<close>
  strips: tab, line feed, vertical tab, form feed, carriage return, space, no-break
  space, U+1680, U+2000 to U+200A, U+2028, U+2029, U+202F, U+205F, U+3000, U+FEFF.
\<close>

definition isWhiteSpace :: "jschar \<Rightarrow> bool" where
  "isWhiteSpace c =
     ((9 \<le> c \<and> c \<le> 13) \<or> c = 32 \<or> c = 160 \<or> c = 5760 \<or> (8192 \<le> c \<and> c \<le> 8202) \<or>
      c = 8232 \<or> c = 8233 \<or> c = 8239 \<or> c = 8287 \<or> c = 12288 \<or> c = 65279)"

text \<open>
  The class \<open>[\<dots>!?]\<close> of \<open>sentenceRegex\<close>: ideographic full stop U+3002, fullwidth
  exclamation mark U+FF01, fullwidth question mark U+FF1F, \<open>!\<close> and \<open>?\<close>.
\<close>

definition isSentenceEnd :: "jschar \<Rightarrow> bool" where
  "isSentenceEnd c = (c = 12290 \<or> c = 65281 \<or> c = 65311 \<or> c = 33 \<or> c = 63)"

text \<open>
  The class \<open>[\<dots>,.;]\<close> of \<open>punctRegex\<close>: fullwidth comma U+FF0C, ideographic comma
  U+3001, fullwidth semicolon U+FF1B, \<open>,\<close>, \<open>.\<close> and \<open>;\<close>.
\<close>

definition isClauseMark :: "jschar \<Rightarrow> bool" where
  "isClauseMark c = (c = 65292 \<or> c = 12289 \<or> c = 65307 \<or> c = 44 \<or> c = 46 \<or> c = 59)"

definition js_trim :: "jsstring \<Rightarrow> jsstring" where
  "js_trim s = rev (dropWhile isWhiteSpace (rev (dropWhile isWhiteSpace s)))"

section \<open>Regular expressions\<close>

text \<open>
  The expressions of the source are sequences of three kinds of item: one character of a
  class (\<open>Ch\<close>), a greedy repetition of a class with a minimal count (\<open>Rep p 1\<close> is
  \<open>[\<dots>]+\<close>, \<open>Rep p 0\<close> is \<open>[\<dots>]*\<close>, \<open>Rep p 2\<close> is \<open>[\<dots>]{2,}\<close>) and an optional group
  (\<open>Opt\<close>, for \<open>x?\<close> and \<open>(\<dots>)?\<close>).
\<close>

datatype rx = Ch "jschar \<Rightarrow> bool" | Rep "jschar \<Rightarrow> bool" nat | Opt "rx list"

fun firstSome :: "'a option list \<Rightarrow> 'a option" where
  "firstSome [] = None"
| "firstSome (None # xs) = firstSome xs"
| "firstSome (Some x # xs) = Some x"

text \<open>
  Backtracking match of a pattern at the head of a string, in the engine's order of
  preference: a repetition tries the longest run first and gives characters back one at
  a time, an optional group is tried before it is skipped. The result is what is left of
  the string after the match.
\<close>

function rmatch :: "rx list \<Rightarrow> jsstring \<Rightarrow> jsstring option" where
  "rmatch [] s = Some s"
| "rmatch (Ch p # r) s = (case s of [] \<Rightarrow> None | c # cs \<Rightarrow> if p c then rmatch r cs else None)"
| "rmatch (Rep p n # r) s =
     firstSome (map (\<lambda>k. rmatch r (drop k s)) (rev [n..<Suc (length (takeWhile p s))]))"
| "rmatch (Opt g # r) s = (case rmatch (g @ r) s of Some x \<Rightarrow> Some x | None \<Rightarrow> rmatch r s)"
  by pat_completeness auto
termination
  by (relation "measure (\<lambda>(pat, s). size_list size pat)") auto

text \<open>
  \<open>[...text.matchAll(re)]\<close> for a global expression: the matches from left to right,
  each with its index. The search resumes where the last match ended; after an empty
  match it resumes one code unit further. The string argument is the text from index
  \<open>i\<close> on.
\<close>

function matchAllFrom :: "rx list \<Rightarrow> nat \<Rightarrow> jsstring \<Rightarrow> (nat \<times> jsstring) list" where
  "matchAllFrom pat i [] = (case rmatch pat [] of None \<Rightarrow> [] | Some rest \<Rightarrow> [(i, [])])"
| "matchAllFrom pat i (c # cs) =
     (case rmatch pat (c # cs) of
        None \<Rightarrow> matchAllFrom pat (Suc i) cs
      | Some rest \<Rightarrow>
          let k = Suc (length cs) - length rest in
          if k = 0 then (i, []) # matchAllFrom pat (Suc i) cs
          else (i, take k (c # cs)) # matchAllFrom pat (i + k) (drop k (c # cs)))"
  by pat_completeness auto
termination
  by (relation "measure (\<lambda>(pat, i, s). length s)") auto

definition matchAll :: "rx list \<Rightarrow> jsstring \<Rightarrow> (nat \<times> jsstring) list" where
  "matchAll pat text = matchAllFrom pat 0 text"

text \<open>\<open>/[^\<dots>!?]+[\<dots>!?]/g\<close>\<close>

definition sentenceRegex :: "rx list" where
  "sentenceRegex = [Rep (\<lambda>c. \<not> isSentenceEnd c) 1, Ch isSentenceEnd]"

text \<open>\<open>/[^\<dots>,.;]+[\<dots>,.;]?/g\<close>\<close>

definition punctRegex :: "rx list" where
  "punctRegex = [Rep (\<lambda>c. \<not> isClauseMark c) 1, Opt [Ch isClauseMark]]"

section \<open>The segmenter\<close>

text \<open>The objects \<open>{ text, start, end }\<close> returned by the three splitting functions.\<close>

record text_unit =
  u_text :: jsstring
  u_start :: nat
  u_end :: nat

text \<open>
  The width oracle (\<open>measureTextWidth\<close> of SmartSubtitle, \<open>getTextWidth\<close> of the two
  readers, which adds 60 to the canvas measurement) and the budget
  (\<open>config.maxLineWidth\<close>, \<open>config.maxTextWidth\<close>) are the parameters \<open>measureTextWidth\<close> and \<open>maxLineWidth\<close>;
  the three copies of the splitting functions differ in nothing else. The code only
  compares widths, so any linear order stands for the numbers.
\<close>

subsection \<open>forceSplitText\<close>

text \<open>
  \<^verbatim>\<open>
  forceSplitText(text, basePosition = 0) {
      const units = [];
      let currentText = "";
      let startPos = 0;
      for (let i = 0; i < text.length; i++) {
          currentText += text[i];
          if (this.measureTextWidth(currentText) > this.config.maxLineWidth) {
              if (currentText.length > 1) {
                  currentText = currentText.slice(0, -1);
                  i--;
              }
              units.push({ text: currentText, start: basePosition + startPos,
                           end: basePosition + startPos + currentText.length });
              currentText = "";
              startPos = i + 1;
          }
      }
      if (currentText) {
          units.push({ text: currentText, start: basePosition + startPos,
                       end: basePosition + text.length });
      }
      return units;
  }
  \<close>
  The variables of the loop are the state. One step is the loop body followed by the
  \<open>i++\<close> of the loop header: after the back-off (\<open>i--\<close>) the header's increment brings
  \<open>i\<close> back to the same index, and \<open>startPos = i + 1\<close> is that index.
\<close>

record fs_state =
  fs_i :: nat
  fs_currentText :: jsstring
  fs_startPos :: nat
  fs_units :: "text_unit list"

definition fs_init :: fs_state where
  "fs_init = \<lparr>fs_i = 0, fs_currentText = [], fs_startPos = 0, fs_units = []\<rparr>"

definition forceSplit_step ::
  "(jsstring \<Rightarrow> 'w::linorder) \<Rightarrow> 'w \<Rightarrow> jsstring \<Rightarrow> nat \<Rightarrow> fs_state \<Rightarrow> fs_state" where
  "forceSplit_step measureTextWidth maxLineWidth text basePosition st =
     (let currentText = fs_currentText st @ [text ! fs_i st] in
      if measureTextWidth currentText > maxLineWidth then
        (if length currentText > 1 then
           \<lparr>fs_i = fs_i st, fs_currentText = [], fs_startPos = fs_i st,
            fs_units = fs_units st @
              [\<lparr>u_text = butlast currentText,
                u_start = basePosition + fs_startPos st,
                u_end = basePosition + fs_startPos st + length (butlast currentText)\<rparr>]\<rparr>
         else
           \<lparr>fs_i = Suc (fs_i st), fs_currentText = [], fs_startPos = Suc (fs_i st),
            fs_units = fs_units st @
              [\<lparr>u_text = currentText,
                u_start = basePosition + fs_startPos st,
                u_end = basePosition + fs_startPos st + length currentText\<rparr>]\<rparr>)
      else st\<lparr>fs_i := Suc (fs_i st), fs_currentText := currentText\<rparr>)"

text \<open>
  The loop. Its variant: twice the number of characters not yet passed, plus one while
  characters are accumulated. The back-off keeps \<open>i\<close> but empties the accumulator; every
  other step advances \<open>i\<close>.
\<close>

definition fs_variant :: "jsstring \<Rightarrow> fs_state \<Rightarrow> nat" where
  "fs_variant text st = 2 * (length text - fs_i st) + (if fs_currentText st = [] then 0 else 1)"

function forceSplit_loop ::
  "(jsstring \<Rightarrow> 'w::linorder) \<Rightarrow> 'w \<Rightarrow> jsstring \<Rightarrow> nat \<Rightarrow> fs_state \<Rightarrow> fs_state" where
  "forceSplit_loop measureTextWidth maxLineWidth text basePosition st =
     (if fs_i st < length text
      then forceSplit_loop measureTextWidth maxLineWidth text basePosition
             (forceSplit_step measureTextWidth maxLineWidth text basePosition st)
      else st)"
  by pat_completeness auto
termination
  by (relation "measure (\<lambda>(m, w, t, b, st). fs_variant t st)")
     (auto simp: fs_variant_def forceSplit_step_def Let_def)

definition fs_finish :: "jsstring \<Rightarrow> nat \<Rightarrow> fs_state \<Rightarrow> text_unit list" where
  "fs_finish text basePosition st =
     (if fs_currentText st \<noteq> [] then
        fs_units st @
          [\<lparr>u_text = fs_currentText st,
            u_start = basePosition + fs_startPos st,
            u_end = basePosition + length text\<rparr>]
      else fs_units st)"

definition forceSplitText ::
  "(jsstring \<Rightarrow> 'w::linorder) \<Rightarrow> 'w \<Rightarrow> jsstring \<Rightarrow> nat \<Rightarrow> text_unit list" where
  "forceSplitText measureTextWidth maxLineWidth text basePosition =
     fs_finish text basePosition (forceSplit_loop measureTextWidth maxLineWidth text basePosition fs_init)"

text \<open>
  The same loop with a bound on the number of times the body may run: \<open>None\<close> when the
  bound is used up before the loop condition fails.
\<close>

fun forceSplit_bounded ::
  "nat \<Rightarrow> (jsstring \<Rightarrow> 'w::linorder) \<Rightarrow> 'w \<Rightarrow> jsstring \<Rightarrow> nat \<Rightarrow> fs_state \<Rightarrow> fs_state option" where
  "forceSplit_bounded 0 measureTextWidth maxLineWidth text basePosition st =
     (if fs_i st < length text then None else Some st)"
| "forceSplit_bounded (Suc n) measureTextWidth maxLineWidth text basePosition st =
     (if fs_i st < length text
      then forceSplit_bounded n measureTextWidth maxLineWidth text basePosition
             (forceSplit_step measureTextWidth maxLineWidth text basePosition st)
      else Some st)"

subsection \<open>splitByPunctuation\<close>

text \<open>
  \<^verbatim>\<open>
  splitByPunctuation(text, basePosition = 0) {
      const punctRegex = /[^...,.;]+[...,.;]?/g;
      let matches = [...text.matchAll(punctRegex)];
      const units = [];
      if (matches.length > 0) {
          let currentPos = 0;
          for (const match of matches) {
              const phrase = match[0];
              const start = basePosition + match.index;
              const end = start + phrase.length;
              if (this.measureTextWidth(phrase) <= this.config.maxLineWidth) {
                  units.push({ text: phrase, start, end });
              } else {
                  const forceSplitUnits = this.forceSplitText(phrase, start);
                  units.push(...forceSplitUnits);
              }
              currentPos = match.index + phrase.length;
          }
          if (currentPos < text.length) {
              const remaining = text.substring(currentPos);
              if (remaining.trim()) {
                  if (this.measureTextWidth(remaining) <= this.config.maxLineWidth) {
                      units.push({ text: remaining, start: basePosition + currentPos,
                                   end: basePosition + text.length });
                  } else {
                      const forceSplitUnits =
                          this.forceSplitText(remaining, basePosition + currentPos);
                      units.push(...forceSplitUnits);
                  }
              }
          }
          return units;
      }
      return this.forceSplitText(text, basePosition);
  }
  \<close>
  The body of the \<open>for\<close> loop works on the pair \<open>(units, currentPos)\<close>.
\<close>

definition punct_step ::
  "(jsstring \<Rightarrow> 'w::linorder) \<Rightarrow> 'w \<Rightarrow> nat \<Rightarrow> nat \<times> jsstring \<Rightarrow>
   text_unit list \<times> nat \<Rightarrow> text_unit list \<times> nat" where
  "punct_step measureTextWidth maxLineWidth basePosition match acc =
     (let phrase = snd match;
          start = basePosition + fst match;
          end = start + length phrase
      in ((if measureTextWidth phrase \<le> maxLineWidth
           then fst acc @ [\<lparr>u_text = phrase, u_start = start, u_end = end\<rparr>]
           else fst acc @ forceSplitText measureTextWidth maxLineWidth phrase start),
          fst match + length phrase))"

definition punct_rest ::
  "(jsstring \<Rightarrow> 'w::linorder) \<Rightarrow> 'w \<Rightarrow> jsstring \<Rightarrow> nat \<Rightarrow>
   text_unit list \<times> nat \<Rightarrow> text_unit list" where
  "punct_rest measureTextWidth maxLineWidth text basePosition acc =
     (let units = fst acc; currentPos = snd acc in
      if currentPos < length text then
        (let remaining = drop currentPos text in
         if js_trim remaining \<noteq> [] then
           (if measureTextWidth remaining \<le> maxLineWidth
            then units @ [\<lparr>u_text = remaining, u_start = basePosition + currentPos,
                           u_end = basePosition + length text\<rparr>]
            else units @ forceSplitText measureTextWidth maxLineWidth remaining (basePosition + currentPos))
         else units)
      else units)"

definition splitByPunctuation ::
  "(jsstring \<Rightarrow> 'w::linorder) \<Rightarrow> 'w \<Rightarrow> jsstring \<Rightarrow> nat \<Rightarrow> text_unit list" where
  "splitByPunctuation measureTextWidth maxLineWidth text basePosition =
     (let matches = matchAll punctRegex text in
      if length matches > 0 then
        punct_rest measureTextWidth maxLineWidth text basePosition
          (fold (punct_step measureTextWidth maxLineWidth basePosition) matches ([], 0))
      else forceSplitText measureTextWidth maxLineWidth text basePosition)"

subsection \<open>smartSplitText\<close>

text \<open>
  \<^verbatim>\<open>
  smartSplitText(text) {
      if (this.measureTextWidth(text) <= this.config.maxLineWidth) {
          return [{ text, start: 0, end: text.length }];
      }
      const sentenceRegex = /[^...!?]+[...!?]/g;
      let matches = [...text.matchAll(sentenceRegex)];
      if (matches.length > 0) {
          const units = [];
          let currentPos = 0;
          for (const match of matches) {
              const sentence = match[0];
              const start = match.index;
              const end = start + sentence.length;
              if (this.measureTextWidth(sentence) <= this.config.maxLineWidth) {
                  units.push({ text: sentence, start, end });
              } else {
                  const subUnits = this.splitByPunctuation(sentence, start);
                  units.push(...subUnits);
              }
              currentPos = end;
          }
          if (currentPos < text.length) {
              const remaining = text.substring(currentPos);
              if (remaining.trim()) {
                  if (this.measureTextWidth(remaining) <= this.config.maxLineWidth) {
                      units.push({ text: remaining, start: currentPos, end: text.length });
                  } else {
                      const subUnits = this.splitByPunctuation(remaining, currentPos);
                      units.push(...subUnits);
                  }
              }
          }
          return units;
      }
      return this.splitByPunctuation(text, 0);
  }
  \<close>
\<close>

definition sentence_step ::
  "(jsstring \<Rightarrow> 'w::linorder) \<Rightarrow> 'w \<Rightarrow> nat \<times> jsstring \<Rightarrow>
   text_unit list \<times> nat \<Rightarrow> text_unit list \<times> nat" where
  "sentence_step measureTextWidth maxLineWidth match acc =
     (let sentence = snd match;
          start = fst match;
          end = start + length sentence
      in ((if measureTextWidth sentence \<le> maxLineWidth
           then fst acc @ [\<lparr>u_text = sentence, u_start = start, u_end = end\<rparr>]
           else fst acc @ splitByPunctuation measureTextWidth maxLineWidth sentence start),
          end))"

definition sentence_rest ::
  "(jsstring \<Rightarrow> 'w::linorder) \<Rightarrow> 'w \<Rightarrow> jsstring \<Rightarrow>
   text_unit list \<times> nat \<Rightarrow> text_unit list" where
  "sentence_rest measureTextWidth maxLineWidth text acc =
     (let units = fst acc; currentPos = snd acc in
      if currentPos < length text then
        (let remaining = drop currentPos text in
         if js_trim remaining \<noteq> [] then
           (if measureTextWidth remaining \<le> maxLineWidth
            then units @ [\<lparr>u_text = remaining, u_start = currentPos, u_end = length text\<rparr>]
            else units @ splitByPunctuation measureTextWidth maxLineWidth remaining currentPos)
         else units)
      else units)"

definition smartSplitText ::
  "(jsstring \<Rightarrow> 'w::linorder) \<Rightarrow> 'w \<Rightarrow> jsstring \<Rightarrow> text_unit list" where
  "smartSplitText measureTextWidth maxLineWidth text =
     (if measureTextWidth text \<le> maxLineWidth then [\<lparr>u_text = text, u_start = 0, u_end = length text\<rparr>]
      else
        let matches = matchAll sentenceRegex text in
        if length matches > 0 then
          sentence_rest measureTextWidth maxLineWidth text (fold (sentence_step measureTextWidth maxLineWidth) matches ([], 0))
        else splitByPunctuation measureTextWidth maxLineWidth text 0)"

section \<open>Text cleaning\<close>

text \<open>
  \<open>text.replace(re, fn)\<close> for a global expression: every match, from left to right, is
  replaced by what \<open>fn\<close> returns for it, and the text between the matches is kept.
\<close>

function replaceAll :: "rx list \<Rightarrow> (jsstring \<Rightarrow> jsstring) \<Rightarrow> jsstring \<Rightarrow> jsstring" where
  "replaceAll pat f [] = (case rmatch pat [] of None \<Rightarrow> [] | Some rest \<Rightarrow> f [])"
| "replaceAll pat f (c # cs) =
     (case rmatch pat (c # cs) of
        None \<Rightarrow> c # replaceAll pat f cs
      | Some rest \<Rightarrow>
          let k = Suc (length cs) - length rest in
          if k = 0 then f [] @ c # replaceAll pat f cs
          else f (take k (c # cs)) @ replaceAll pat f (drop k (c # cs)))"
  by pat_completeness auto
termination
  by (relation "measure (\<lambda>(pat, f, s). length s)") auto

text \<open>
  An expression with the \<open>u\<close> flag reads the string by code points: a high surrogate
  followed by a low surrogate is one code point, any other code unit is a code point of
  its own. \<open>text.replace(/[class]/gu, '')\<close> deletes the code points of the class.
\<close>

definition isHighSurrogate :: "jschar \<Rightarrow> bool" where
  "isHighSurrogate c = (55296 \<le> c \<and> c \<le> 56319)"

definition isLowSurrogate :: "jschar \<Rightarrow> bool" where
  "isLowSurrogate c = (56320 \<le> c \<and> c \<le> 57343)"

definition codePointOf :: "jschar \<Rightarrow> jschar \<Rightarrow> nat" where
  "codePointOf h l = 65536 + (h - 55296) * 1024 + (l - 56320)"

fun removeCodePoints :: "(nat \<Rightarrow> bool) \<Rightarrow> jsstring \<Rightarrow> jsstring" where
  "removeCodePoints cls (h # l # rest) =
     (if isHighSurrogate h \<and> isLowSurrogate l then
        (if cls (codePointOf h l) then removeCodePoints cls rest
         else h # l # removeCodePoints cls rest)
      else
        (if cls h then removeCodePoints cls (l # rest)
         else h # removeCodePoints cls (l # rest)))"
| "removeCodePoints cls [c] = (if cls c then [] else [c])"
| "removeCodePoints cls [] = []"

text \<open>
  The Unicode general category of a code point, by its major class (\<open>\p{L}\<close>, \<open>\p{M}\<close>,
  \<open>\p{N}\<close>, \<open>\p{P}\<close>, \<open>\p{S}\<close>, \<open>\p{Z}\<close>, \<open>\p{C}\<close>). The table belongs to the
  JavaScript engine, not to the repository: the functions below take it as the parameter
  \<open>gc\<close>.
\<close>

datatype general_category = Letter | Mark | Number | Punctuation | Symbol | Separator | Other

text \<open>
  The table for the Basic Latin block (U+0000 to U+007F), as Unicode has it; the examples
  are run with it, on text whose characters outside the block are deleted by the emoji
  class before the table is asked.
\<close>

definition asciiCategory :: "nat \<Rightarrow> general_category" where
  "asciiCategory c =
     (if (65 \<le> c \<and> c \<le> 90) \<or> (97 \<le> c \<and> c \<le> 122) then Letter
      else if 48 \<le> c \<and> c \<le> 57 then Number
      else if c = 32 then Separator
      else if c \<in> set [33, 34, 35, 37, 38, 39, 40, 41, 42, 44, 45, 46, 47, 58, 59, 63, 64,
                         91, 92, 93, 95, 123, 125] then Punctuation
      else if c \<in> set [36, 43, 60, 61, 62, 94, 96, 124, 126] then Symbol
      else Other)"

text \<open>
  The emoji class of \<open>SmartSubtitle.cleanText\<close>: U+1F300 to U+1F5FF, U+1F600 to U+1F64F,
  U+1F680 to U+1F6FF, U+1F700 to U+1F77F, U+1F780 to U+1F7FF, U+1F800 to U+1F8FF,
  U+1F900 to U+1F9FF, U+1FA00 to U+1FA6F, U+1FA70 to U+1FAFF, U+2600 to U+26FF,
  U+2700 to U+27BF.
\<close>

definition isEmoji :: "nat \<Rightarrow> bool" where
  "isEmoji c =
     ((127744 \<le> c \<and> c \<le> 128511) \<or> (128512 \<le> c \<and> c \<le> 128591) \<or>
      (128640 \<le> c \<and> c \<le> 128767) \<or> (128768 \<le> c \<and> c \<le> 128895) \<or>
      (128896 \<le> c \<and> c \<le> 129023) \<or> (129024 \<le> c \<and> c \<le> 129279) \<or>
      (129280 \<le> c \<and> c \<le> 129535) \<or> (129536 \<le> c \<and> c \<le> 129647) \<or>
      (129648 \<le> c \<and> c \<le> 129791) \<or> (9728 \<le> c \<and> c \<le> 9983) \<or>
      (9984 \<le> c \<and> c \<le> 10175))"

text \<open>\<open>[^\p{L}\p{N}\p{P}\p{Z}]\<close>\<close>

definition notLNPZ :: "(nat \<Rightarrow> general_category) \<Rightarrow> nat \<Rightarrow> bool" where
  "notLNPZ gc c = (gc c \<noteq> Letter \<and> gc c \<noteq> Number \<and> gc c \<noteq> Punctuation \<and> gc c \<noteq> Separator)"

text \<open>\<open>/\s+/g\<close>\<close>

definition spacesRegex :: "rx list" where
  "spacesRegex = [Rep isWhiteSpace 1]"

text \<open>
  The options of SmartSubtitle that the text functions read. \<open>fontSize\<close> and
  \<open>fontFamily\<close> only reach the canvas, that is the width oracle.
\<close>

record 'w config =
  maxLineWidth :: 'w
  cleanEmoji :: bool
  cleanSpecialChars :: bool
  normalizeSpaces :: bool

text \<open>
  \<^verbatim>\<open>
  cleanText(text) {
      let result = text;
      if (this.config.cleanEmoji) {
          result = result.replace(/[\u{1F300}-\u{1F5FF}...\u{2700}-\u{27BF}]/gu, '');
      }
      if (this.config.cleanSpecialChars) {
          result = result.replace(/[^\p{L}\p{N}\p{P}\p{Z}]/gu, '');
      }
      if (this.config.normalizeSpaces) {
          result = result.replace(/\s+/g, ' ');
      }
      return result;
  }
  \<close>
\<close>

definition cleanText :: "(nat \<Rightarrow> general_category) \<Rightarrow> 'w config \<Rightarrow> jsstring \<Rightarrow> jsstring" where
  "cleanText gc cfg text =
     (let result = text;
          result = (if cleanEmoji cfg then removeCodePoints isEmoji result else result);
          result = (if cleanSpecialChars cfg then removeCodePoints (notLNPZ gc) result else result);
          result = (if normalizeSpaces cfg then replaceAll spacesRegex (\<lambda>m. [32]) result else result)
      in result)"

section \<open>String functions of the aligner\<close>

text \<open>
  \<open>s.indexOf(search, position)\<close>: the first index at or after \<open>position\<close> (clamped to
  the length of \<open>s\<close>) where \<open>search\<close> occurs; \<open>None\<close> stands for \<open>-1\<close>.
\<close>

fun indexOfFrom :: "jsstring \<Rightarrow> nat \<Rightarrow> jsstring \<Rightarrow> nat option" where
  "indexOfFrom search k [] = (if search = [] then Some k else None)"
| "indexOfFrom search k (c # cs) =
     (if take (length search) (c # cs) = search then Some k
      else indexOfFrom search (Suc k) cs)"

definition indexOf :: "jsstring \<Rightarrow> jsstring \<Rightarrow> nat \<Rightarrow> nat option" where
  "indexOf s search position =
     (let start = min position (length s) in indexOfFrom search start (drop start s))"

text \<open>\<open>s.split(sep)\<close> for a separator of one code unit.\<close>

fun js_split :: "jschar \<Rightarrow> jsstring \<Rightarrow> jsstring list" where
  "js_split sep [] = [[]]"
| "js_split sep (c # cs) =
     (if c = sep then [] # js_split sep cs
      else (case js_split sep cs of [] \<Rightarrow> [[c]] | x # xs \<Rightarrow> (c # x) # xs))"

text \<open>\<open>lines.join(sep)\<close>\<close>

fun js_join :: "jsstring \<Rightarrow> jsstring list \<Rightarrow> jsstring" where
  "js_join sep [] = []"
| "js_join sep [x] = x"
| "js_join sep (x # y # ys) = x @ sep @ js_join sep (y # ys)"

text \<open>
  \<open>for (let k = unitPos; k < unitEnd; k++) { charToUnitMap[k] = unitIndex; }\<close>
\<close>

definition fillCells :: "cell list \<Rightarrow> nat \<Rightarrow> nat \<Rightarrow> int \<Rightarrow> cell list" where
  "fillCells charToUnitMap unitPos unitEnd unitIndex =
     fold (\<lambda>k m. js_set m k unitIndex) [unitPos..<unitEnd] charToUnitMap"

section \<open>SmartSubtitle.processSubtitleText\<close>

text \<open>
  \<^verbatim>\<open>
  processSubtitleText(rawText, mdHtml = null) {
      const cleanedText = this.cleanText(rawText);
      let mdLines = [];
      if (mdHtml) {
          mdLines = this.extractLinesFromHTML(mdHtml);
      } else {
          mdLines = rawText.split('\n').map(line => line.trim()).filter(line => line);
      }
      const cleanedLines = mdLines.map(line => this.cleanText(line)).filter(line => line);
      const displayUnits = [];
      const charToUnitMap = new Array(cleanedText.length).fill(-1);
      let currentPos = 0;
      for (let i = 0; i < mdLines.length; i++) {
          const originalLine = mdLines[i];
          const cleanedLine = cleanedLines[i];
          if (!cleanedLine) continue;
          const linePos = cleanedText.indexOf(cleanedLine, currentPos);
          if (linePos !== -1) {
              const units = this.smartSplitText(originalLine);
              for (let j = 0; j < units.length; j++) {
                  const unit = units[j];
                  const unitIndex = displayUnits.length;
                  const cleanedUnitText = this.cleanText(unit.text);
                  const unitPos = cleanedText.indexOf(cleanedUnitText, linePos);
                  if (unitPos !== -1) {
                      const unitEnd = unitPos + cleanedUnitText.length;
                      for (let k = unitPos; k < unitEnd; k++) {
                          charToUnitMap[k] = unitIndex;
                      }
                      displayUnits.push({ text: unit.text, cleanedText: cleanedUnitText,
                                          start: unitPos, end: unitEnd });
                  }
              }
              currentPos = linePos + cleanedLine.length;
          }
      }
      return { displayUnits, charToUnitMap, cleanedText };
  }
  \<close>
  \<open>extractLinesFromHTML\<close> walks the DOM of the browser; its result is the parameter
  \<open>htmlLines\<close>: \<open>Some lines\<close> when \<open>mdHtml\<close> is given, \<open>None\<close> when it is \<open>null\<close> or
  empty and the lines are cut from \<open>rawText\<close>.
\<close>

record subtitle_data =
  sd_displayUnits :: "display_unit list"
  sd_charToUnitMap :: "cell list"
  sd_cleanedText :: jsstring

text \<open>The body of the loop over \<open>j\<close>, on the pair \<open>(displayUnits, charToUnitMap)\<close>.\<close>

definition unit_step ::
  "(jsstring \<Rightarrow> jsstring) \<Rightarrow> jsstring \<Rightarrow> nat \<Rightarrow> text_unit \<Rightarrow>
   display_unit list \<times> cell list \<Rightarrow> display_unit list \<times> cell list" where
  "unit_step clean cleanedText linePos unit acc =
     (let displayUnits = fst acc; charToUnitMap = snd acc;
          unitIndex = length displayUnits;
          cleanedUnitText = clean (u_text unit)
      in case indexOf cleanedText cleanedUnitText linePos of
           None \<Rightarrow> (displayUnits, charToUnitMap)
         | Some unitPos \<Rightarrow>
             let unitEnd = unitPos + length cleanedUnitText in
             (displayUnits @
                [\<lparr>du_text = u_text unit, du_cleanedText = cleanedUnitText,
                  du_start = unitPos, du_end = unitEnd\<rparr>],
              fillCells charToUnitMap unitPos unitEnd (int unitIndex)))"

text \<open>
  The body of the loop over \<open>i\<close>, on \<open>(displayUnits, charToUnitMap, currentPos)\<close>.
  \<open>cleanedLines[i]\<close> is \<open>undefined\<close> at or beyond the length of \<open>cleanedLines\<close>;
  \<open>undefined\<close> and the empty string are both falsy.
\<close>

definition line_step ::
  "(jsstring \<Rightarrow> jsstring) \<Rightarrow> (jsstring \<Rightarrow> text_unit list) \<Rightarrow> jsstring \<Rightarrow>
   jsstring list \<Rightarrow> jsstring list \<Rightarrow> nat \<Rightarrow>
   display_unit list \<times> cell list \<times> nat \<Rightarrow> display_unit list \<times> cell list \<times> nat" where
  "line_step clean split cleanedText mdLines cleanedLines i st =
     (let displayUnits = fst st; charToUnitMap = fst (snd st); currentPos = snd (snd st);
          originalLine = mdLines ! i
      in case js_index cleanedLines (int i) of
           None \<Rightarrow> st
         | Some cleanedLine \<Rightarrow>
             if cleanedLine = [] then st
             else
               (case indexOf cleanedText cleanedLine currentPos of
                  None \<Rightarrow> st
                | Some linePos \<Rightarrow>
                    let units = split originalLine;
                        r = fold (unit_step clean cleanedText linePos) units
                              (displayUnits, charToUnitMap)
                    in (fst r, snd r, linePos + length cleanedLine)))"

definition processSubtitleText ::
  "(nat \<Rightarrow> general_category) \<Rightarrow> (jsstring \<Rightarrow> 'w::linorder) \<Rightarrow> 'w config \<Rightarrow>
   jsstring \<Rightarrow> jsstring list option \<Rightarrow> subtitle_data" where
  "processSubtitleText gc measureTextWidth cfg rawText htmlLines =
     (let cleanedText = cleanText gc cfg rawText;
          mdLines = (case htmlLines of
                       Some lines \<Rightarrow> lines
                     | None \<Rightarrow> filter (\<lambda>line. line \<noteq> []) (map js_trim (js_split 10 rawText)));
          cleanedLines = filter (\<lambda>line. line \<noteq> []) (map (cleanText gc cfg) mdLines);
          st = fold (line_step (cleanText gc cfg)
                       (smartSplitText measureTextWidth (maxLineWidth cfg))
                       cleanedText mdLines cleanedLines)
                 [0..<length mdLines]
                 ([], replicate (length cleanedText) (Some (-1)), 0)
      in \<lparr>sd_displayUnits = fst st, sd_charToUnitMap = fst (snd st),
          sd_cleanedText = cleanedText\<rparr>)"

section \<open>SubtitleReader with length-preserving filtering\<close>

subsection \<open>filterTextKeepLength and filterTextComplete\<close>

definition lit :: "jschar \<Rightarrow> rx" where
  "lit c = Ch (\<lambda>x. x = c)"

definition isAlpha :: "jschar \<Rightarrow> bool" where
  "isAlpha c = ((65 \<le> c \<and> c \<le> 90) \<or> (97 \<le> c \<and> c \<le> 122))"

definition isAlnum :: "jschar \<Rightarrow> bool" where
  "isAlnum c = (isAlpha c \<or> (48 \<le> c \<and> c \<le> 57))"

definition notSpace :: "jschar \<Rightarrow> bool" where
  "notSpace c = (\<not> isWhiteSpace c)"

text \<open>\<open>/https?:\/\/[^\s]+/g\<close>\<close>

definition httpRegex :: "rx list" where
  "httpRegex = [lit 104, lit 116, lit 116, lit 112, Opt [lit 115], lit 58, lit 47, lit 47,
                Rep notSpace 1]"

text \<open>\<open>/www\.[^\s]+/g\<close>\<close>

definition wwwRegex :: "rx list" where
  "wwwRegex = [lit 119, lit 119, lit 119, lit 46, Rep notSpace 1]"

text \<open>\<open>/[a-zA-Z0-9][a-zA-Z0-9-]*\.[a-zA-Z]{2,}(\.[a-zA-Z]{2,})?[^\s]*/g\<close>\<close>

definition domainRegex :: "rx list" where
  "domainRegex = [Ch isAlnum, Rep (\<lambda>c. isAlnum c \<or> c = 45) 0, lit 46, Rep isAlpha 2,
                  Opt [lit 46, Rep isAlpha 2], Rep notSpace 0]"

text \<open>\<open>/[a-zA-Z0-9._%+-]+@[a-zA-Z0-9.-]+\.[a-zA-Z]{2,}/g\<close>\<close>

definition emailRegex :: "rx list" where
  "emailRegex = [Rep (\<lambda>c. isAlnum c \<or> c = 46 \<or> c = 95 \<or> c = 37 \<or> c = 43 \<or> c = 45) 1, lit 64,
                 Rep (\<lambda>c. isAlnum c \<or> c = 46 \<or> c = 45) 1, lit 46, Rep isAlpha 2]"

text \<open>
  The emoji class of the two filters: U+1F000 to U+1FFFF, U+2600 to U+27BF, U+2B50,
  U+2B55.
\<close>

definition isEmojiWide :: "nat \<Rightarrow> bool" where
  "isEmojiWide c =
     ((126976 \<le> c \<and> c \<le> 131071) \<or> (9728 \<le> c \<and> c \<le> 10175) \<or> c = 11088 \<or> c = 11093)"

text \<open>\<open>[^\p{L}\p{N}\p{P}\p{Z}\p{M}]\<close>\<close>

definition notLNPZM :: "(nat \<Rightarrow> general_category) \<Rightarrow> nat \<Rightarrow> bool" where
  "notLNPZM gc c = (notLNPZ gc c \<and> gc c \<noteq> Mark)"

text \<open>\<open>match => ' '.repeat(match.length)\<close>\<close>

definition blanks :: "jsstring \<Rightarrow> jsstring" where
  "blanks m = replicate (length m) 32"

text \<open>
  \<^verbatim>\<open>
  filterTextKeepLength(text) {
    return text
      .replace(/https?:\/\/[^\s]+/g, match => ' '.repeat(match.length))
      .replace(/www\.[^\s]+/g, match => ' '.repeat(match.length))
      .replace(/[a-zA-Z0-9][a-zA-Z0-9-]*\.[a-zA-Z]{2,}(\.[a-zA-Z]{2,})?[^\s]*/g,
               match => ' '.repeat(match.length))
      .replace(/[a-zA-Z0-9._%+-]+@[a-zA-Z0-9.-]+\.[a-zA-Z]{2,}/g,
               match => ' '.repeat(match.length))
      .replace(/[\u{1F000}-\u{1FFFF}\u{2600}-\u{27BF}\u{2B50}\u{2B55}]/gu, '')
      .replace(/[^\p{L}\p{N}\p{P}\p{Z}\p{M}]/gu, '')
      .replace(/\s+/g, ' ');
  }
  \<close>
\<close>

definition filterTextKeepLength :: "(nat \<Rightarrow> general_category) \<Rightarrow> jsstring \<Rightarrow> jsstring" where
  "filterTextKeepLength gc text =
     replaceAll spacesRegex (\<lambda>m. [32])
       (removeCodePoints (notLNPZM gc)
         (removeCodePoints isEmojiWide
           (replaceAll emailRegex blanks
             (replaceAll domainRegex blanks
               (replaceAll wwwRegex blanks
                 (replaceAll httpRegex blanks text))))))"

text \<open>
  \<open>filterTextComplete\<close> is the same chain with the four link expressions replaced by
  the empty string, and \<open>.trim()\<close> at the end.
\<close>

definition filterTextComplete :: "(nat \<Rightarrow> general_category) \<Rightarrow> jsstring \<Rightarrow> jsstring" where
  "filterTextComplete gc text =
     js_trim
       (replaceAll spacesRegex (\<lambda>m. [32])
         (removeCodePoints (notLNPZM gc)
           (removeCodePoints isEmojiWide
             (replaceAll emailRegex (\<lambda>m. [])
               (replaceAll domainRegex (\<lambda>m. [])
                 (replaceAll wwwRegex (\<lambda>m. [])
                   (replaceAll httpRegex (\<lambda>m. []) text)))))))"

subsection \<open>processText\<close>

text \<open>
  \<^verbatim>\<open>
  processText(text, mdHtml) {
    ... // textLines: the trimmed, non-empty lines of the text nodes of mdHtml
    const readingLines = textLines.map(line => { return this.filterTextKeepLength(line); });
    const displayLines = textLines.map(line => { return this.filterTextComplete(line); });
    const cleanedText = readingLines.join(' ');
    const displayUnits = [];
    const charToUnitMap = new Array(cleanedText.length).fill(-1);
    let currentPos = 0;
    for (let i = 0; i < displayLines.length; i++) {
      const displayLine = displayLines[i];
      const readingLine = readingLines[i];
      if (!displayLine) continue;
      const units = this.smartSplitText(displayLine);
      for (let j = 0; j < units.length; j++) {
        const unit = units[j];
        const unitIndex = displayUnits.length;
        const unitPos = cleanedText.indexOf(readingLine, currentPos);
        if (unitPos !== -1) {
          const unitEnd = unitPos + readingLine.length;
          for (let k = unitPos; k < unitEnd; k++) {
            charToUnitMap[k] = unitIndex;
          }
          displayUnits.push({ text: unit.text, start: unitPos, end: unitEnd });
          currentPos = unitEnd;
        }
      }
    }
    return { displayUnits, charToUnitMap, cleanedText };
  }
  \<close>
  The lines are read from the DOM; they are the parameter \<open>textLines\<close>. The pushed
  objects \<open>{ text, start, end }\<close> have the shape of \<open>text_unit\<close>.
\<close>

record reading_data =
  rd_displayUnits :: "text_unit list"
  rd_charToUnitMap :: "cell list"
  rd_cleanedText :: jsstring

text \<open>The body of the loop over \<open>j\<close>, on \<open>(displayUnits, charToUnitMap, currentPos)\<close>.\<close>

definition reading_unit_step ::
  "jsstring \<Rightarrow> jsstring \<Rightarrow> text_unit \<Rightarrow>
   text_unit list \<times> cell list \<times> nat \<Rightarrow> text_unit list \<times> cell list \<times> nat" where
  "reading_unit_step cleanedText readingLine unit st =
     (let displayUnits = fst st; charToUnitMap = fst (snd st); currentPos = snd (snd st);
          unitIndex = length displayUnits
      in case indexOf cleanedText readingLine currentPos of
           None \<Rightarrow> st
         | Some unitPos \<Rightarrow>
             let unitEnd = unitPos + length readingLine in
             (displayUnits @ [\<lparr>u_text = u_text unit, u_start = unitPos, u_end = unitEnd\<rparr>],
              fillCells charToUnitMap unitPos unitEnd (int unitIndex),
              unitEnd))"

definition reading_line_step ::
  "(jsstring \<Rightarrow> text_unit list) \<Rightarrow> jsstring \<Rightarrow> jsstring list \<Rightarrow> jsstring list \<Rightarrow> nat \<Rightarrow>
   text_unit list \<times> cell list \<times> nat \<Rightarrow> text_unit list \<times> cell list \<times> nat" where
  "reading_line_step split cleanedText displayLines readingLines i st =
     (let displayLine = displayLines ! i;
          readingLine = readingLines ! i
      in if displayLine = [] then st
         else fold (reading_unit_step cleanedText readingLine) (split displayLine) st)"

definition processText ::
  "(nat \<Rightarrow> general_category) \<Rightarrow> (jsstring \<Rightarrow> 'w::linorder) \<Rightarrow> 'w \<Rightarrow> jsstring list \<Rightarrow>
   reading_data" where
  "processText gc getTextWidth maxTextWidth textLines =
     (let readingLines = map (filterTextKeepLength gc) textLines;
          displayLines = map (filterTextComplete gc) textLines;
          cleanedText = js_join [32] readingLines;
          st = fold (reading_line_step (smartSplitText getTextWidth maxTextWidth)
                       cleanedText displayLines readingLines)
                 [0..<length displayLines]
                 ([], replicate (length cleanedText) (Some (-1)), 0)
      in \<lparr>rd_displayUnits = fst st, rd_charToUnitMap = fst (snd st),
          rd_cleanedText = cleanedText\<rparr>)"

section \<open>SmartSubtitle as an object\<close>

text \<open>
  The functions of the segmenter above take the width oracle and the budget as
  arguments. In the source they are read from the instance, \<open>this.context\<close> and
  \<open>this.config.maxLineWidth\<close>, and the two expressions are objects with a \<open>lastIndex\<close>.
  In this section the same functions are translated with that state explicit: every
  method takes the instance \<open>this\<close> and returns its result together with the instance as
  the call leaves it, and the expressions are objects.

  \<^verbatim>\<open>
  constructor(options = {}) {
      this.config = { maxLineWidth: 800, fontSize: 22, fontFamily: "...", ... , ...options };
      this._setupTextMeasurement();
  }
  _setupTextMeasurement() {
      this.canvas = document.createElement('canvas');
      this.context = this.canvas.getContext('2d');
      this.context.font = `${this.config.fontSize}px ${this.config.fontFamily}`;
  }
  measureTextWidth(text) {
      return this.context.measureText(text).width;
  }
  \<close>
  The instance holds \<open>config\<close> and \<open>context\<close>, the state of the 2D context of the
  measuring canvas (its font and its other attributes). The text metrics of the browser,
  \<open>context.measureText(text).width\<close>, are the parameter \<open>measureText\<close>: a function of the
  state of the context and of the text.
\<close>

record ('w, 'c) smart_subtitle =
  ss_config :: "'w config"
  ss_context :: 'c

definition measureTextWidth_obj ::
  "('c \<Rightarrow> jsstring \<Rightarrow> 'w) \<Rightarrow> jsstring \<Rightarrow> ('w, 'c) smart_subtitle \<Rightarrow> 'w \<times> ('w, 'c) smart_subtitle" where
  "measureTextWidth_obj measureText text this = (measureText (ss_context this) text, this)"

text \<open>
  A regular-expression object: its pattern and its \<open>lastIndex\<close>. Evaluating a literal
  \<open>/.../g\<close> creates a new object with \<open>lastIndex\<close> 0.
\<close>

record regexp =
  re_source :: "rx list"
  re_lastIndex :: nat

definition regexp_literal :: "rx list \<Rightarrow> regexp" where
  "regexp_literal pat = \<lparr>re_source = pat, re_lastIndex = 0\<rparr>"

text \<open>
  \<open>RegExp.prototype.exec\<close> on an object with the \<open>g\<close> flag: the search starts at
  \<open>lastIndex\<close> and tries each index up to the end of the text; on a match \<open>lastIndex\<close>
  becomes the end of the match, on failure it becomes 0. \<open>searchFrom\<close> returns the number
  of indices passed over and the length of the match.
\<close>

fun searchFrom :: "rx list \<Rightarrow> jsstring \<Rightarrow> (nat \<times> nat) option" where
  "searchFrom pat [] = (case rmatch pat [] of None \<Rightarrow> None | Some rest \<Rightarrow> Some (0, 0))"
| "searchFrom pat (c # cs) =
     (case rmatch pat (c # cs) of
        None \<Rightarrow> (case searchFrom pat cs of None \<Rightarrow> None | Some (j, n) \<Rightarrow> Some (Suc j, n))
      | Some rest \<Rightarrow> Some (0, Suc (length cs) - length rest))"

definition regexp_exec :: "regexp \<Rightarrow> jsstring \<Rightarrow> (nat \<times> jsstring) option \<times> regexp" where
  "regexp_exec r text =
     (if re_lastIndex r > length text then (None, r\<lparr>re_lastIndex := 0\<rparr>)
      else
        (case searchFrom (re_source r) (drop (re_lastIndex r) text) of
           None \<Rightarrow> (None, r\<lparr>re_lastIndex := 0\<rparr>)
         | Some (j, n) \<Rightarrow>
             (Some (re_lastIndex r + j, take n (drop (re_lastIndex r + j) text)),
              r\<lparr>re_lastIndex := re_lastIndex r + j + n\<rparr>)))"

text \<open>
  \<open>[...text.matchAll(regex)]\<close>: \<open>matchAll\<close> works on a clone of the object that starts
  with the same \<open>lastIndex\<close>, and the iterator calls \<open>exec\<close> on the clone until it returns
  \<open>null\<close>, moving \<open>lastIndex\<close> one further after an empty match. The object given to
  \<open>matchAll\<close> is returned as it was.
\<close>

function matchAll_iter :: "regexp \<Rightarrow> jsstring \<Rightarrow> (nat \<times> jsstring) list" where
  "matchAll_iter matcher text =
     (case regexp_exec matcher text of
        (None, matcher') \<Rightarrow> []
      | (Some mt, matcher') \<Rightarrow>
          mt # matchAll_iter
                 (if snd mt = [] then matcher'\<lparr>re_lastIndex := Suc (re_lastIndex matcher')\<rparr>
                  else matcher') text)"
  by pat_completeness auto
termination
  by (relation "measure (\<lambda>(r, t). Suc (length t) - re_lastIndex r)")
     (auto simp: regexp_exec_def split: if_splits option.splits)

definition js_matchAll :: "regexp \<Rightarrow> jsstring \<Rightarrow> (nat \<times> jsstring) list \<times> regexp" where
  "js_matchAll rx text =
     (let matcher = \<lparr>re_source = re_source rx, re_lastIndex = re_lastIndex rx\<rparr>
      in (matchAll_iter matcher text, rx))"

text \<open>
  The three splitting functions, statement by statement as in the sections above, with
  the instance passed from each statement to the next.
\<close>

fun forceSplit_step_obj ::
  "('c \<Rightarrow> jsstring \<Rightarrow> 'w::linorder) \<Rightarrow> jsstring \<Rightarrow> nat \<Rightarrow>
   fs_state \<times> ('w, 'c) smart_subtitle \<Rightarrow> fs_state \<times> ('w, 'c) smart_subtitle" where
  "forceSplit_step_obj measureText text basePosition (st, this) =
     (let currentText = fs_currentText st @ [text ! fs_i st];
          (width, this1) = measureTextWidth_obj measureText currentText this
      in
      if width > maxLineWidth (ss_config this1) then
        (if length currentText > 1 then
           (\<lparr>fs_i = fs_i st, fs_currentText = [], fs_startPos = fs_i st,
             fs_units = fs_units st @
               [\<lparr>u_text = butlast currentText,
                 u_start = basePosition + fs_startPos st,
                 u_end = basePosition + fs_startPos st + length (butlast currentText)\<rparr>]\<rparr>, this1)
         else
           (\<lparr>fs_i = Suc (fs_i st), fs_currentText = [], fs_startPos = Suc (fs_i st),
             fs_units = fs_units st @
               [\<lparr>u_text = currentText,
                 u_start = basePosition + fs_startPos st,
                 u_end = basePosition + fs_startPos st + length currentText\<rparr>]\<rparr>, this1))
      else (st\<lparr>fs_i := Suc (fs_i st), fs_currentText := currentText\<rparr>, this1))"

function forceSplit_loop_obj ::
  "('c \<Rightarrow> jsstring \<Rightarrow> 'w::linorder) \<Rightarrow> jsstring \<Rightarrow> nat \<Rightarrow>
   fs_state \<times> ('w, 'c) smart_subtitle \<Rightarrow> fs_state \<times> ('w, 'c) smart_subtitle" where
  "forceSplit_loop_obj measureText text basePosition (st, this) =
     (if fs_i st < length text
      then forceSplit_loop_obj measureText text basePosition
             (forceSplit_step_obj measureText text basePosition (st, this))
      else (st, this))"
  by pat_completeness auto
termination
  by (relation "measure (\<lambda>(m, t, b, st, this). fs_variant t st)")
     (auto simp: fs_variant_def measureTextWidth_obj_def Let_def)

definition forceSplitText_obj ::
  "('c \<Rightarrow> jsstring \<Rightarrow> 'w::linorder) \<Rightarrow> jsstring \<Rightarrow> nat \<Rightarrow> ('w, 'c) smart_subtitle \<Rightarrow>
   text_unit list \<times> ('w, 'c) smart_subtitle" where
  "forceSplitText_obj measureText text basePosition this =
     (let (st, this1) = forceSplit_loop_obj measureText text basePosition (fs_init, this)
      in (fs_finish text basePosition st, this1))"

fun punct_step_obj ::
  "('c \<Rightarrow> jsstring \<Rightarrow> 'w::linorder) \<Rightarrow> nat \<Rightarrow> nat \<times> jsstring \<Rightarrow>
   text_unit list \<times> nat \<times> ('w, 'c) smart_subtitle \<Rightarrow> text_unit list \<times> nat \<times> ('w, 'c) smart_subtitle" where
  "punct_step_obj measureText basePosition match (units, currentPos, this) =
     (let phrase = snd match;
          start = basePosition + fst match;
          end = start + length phrase;
          (width, this1) = measureTextWidth_obj measureText phrase this
      in
      if width \<le> maxLineWidth (ss_config this1)
      then (units @ [\<lparr>u_text = phrase, u_start = start, u_end = end\<rparr>],
            fst match + length phrase, this1)
      else
        (let (forceSplitUnits, this2) = forceSplitText_obj measureText phrase start this1
         in (units @ forceSplitUnits, fst match + length phrase, this2)))"

fun punct_rest_obj ::
  "('c \<Rightarrow> jsstring \<Rightarrow> 'w::linorder) \<Rightarrow> jsstring \<Rightarrow> nat \<Rightarrow>
   text_unit list \<times> nat \<times> ('w, 'c) smart_subtitle \<Rightarrow> text_unit list \<times> ('w, 'c) smart_subtitle" where
  "punct_rest_obj measureText text basePosition (units, currentPos, this) =
     (if currentPos < length text then
        (let remaining = drop currentPos text in
         if js_trim remaining \<noteq> [] then
           (let (width, this1) = measureTextWidth_obj measureText remaining this in
            if width \<le> maxLineWidth (ss_config this1)
            then (units @ [\<lparr>u_text = remaining, u_start = basePosition + currentPos,
                            u_end = basePosition + length text\<rparr>], this1)
            else
              (let (forceSplitUnits, this2) =
                     forceSplitText_obj measureText remaining (basePosition + currentPos) this1
               in (units @ forceSplitUnits, this2)))
         else (units, this))
      else (units, this))"

definition splitByPunctuation_obj ::
  "('c \<Rightarrow> jsstring \<Rightarrow> 'w::linorder) \<Rightarrow> jsstring \<Rightarrow> nat \<Rightarrow> ('w, 'c) smart_subtitle \<Rightarrow>
   text_unit list \<times> ('w, 'c) smart_subtitle" where
  "splitByPunctuation_obj measureText text basePosition this =
     (let punctRegexObj = regexp_literal punctRegex;
          matches = fst (js_matchAll punctRegexObj text)
      in
      if length matches > 0 then
        punct_rest_obj measureText text basePosition
          (fold (punct_step_obj measureText basePosition) matches ([], 0, this))
      else forceSplitText_obj measureText text basePosition this)"

fun sentence_step_obj ::
  "('c \<Rightarrow> jsstring \<Rightarrow> 'w::linorder) \<Rightarrow> nat \<times> jsstring \<Rightarrow>
   text_unit list \<times> nat \<times> ('w, 'c) smart_subtitle \<Rightarrow> text_unit list \<times> nat \<times> ('w, 'c) smart_subtitle" where
  "sentence_step_obj measureText match (units, currentPos, this) =
     (let sentence = snd match;
          start = fst match;
          end = start + length sentence;
          (width, this1) = measureTextWidth_obj measureText sentence this
      in
      if width \<le> maxLineWidth (ss_config this1)
      then (units @ [\<lparr>u_text = sentence, u_start = start, u_end = end\<rparr>], end, this1)
      else
        (let (subUnits, this2) = splitByPunctuation_obj measureText sentence start this1
         in (units @ subUnits, end, this2)))"

fun sentence_rest_obj ::
  "('c \<Rightarrow> jsstring \<Rightarrow> 'w::linorder) \<Rightarrow> jsstring \<Rightarrow>
   text_unit list \<times> nat \<times> ('w, 'c) smart_subtitle \<Rightarrow> text_unit list \<times> ('w, 'c) smart_subtitle" where
  "sentence_rest_obj measureText text (units, currentPos, this) =
     (if currentPos < length text then
        (let remaining = drop currentPos text in
         if js_trim remaining \<noteq> [] then
           (let (width, this1) = measureTextWidth_obj measureText remaining this in
            if width \<le> maxLineWidth (ss_config this1)
            then (units @ [\<lparr>u_text = remaining, u_start = currentPos, u_end = length text\<rparr>],
                  this1)
            else
              (let (subUnits, this2) =
                     splitByPunctuation_obj measureText remaining currentPos this1
               in (units @ subUnits, this2)))
         else (units, this))
      else (units, this))"

definition smartSplitText_obj ::
  "('c \<Rightarrow> jsstring \<Rightarrow> 'w::linorder) \<Rightarrow> jsstring \<Rightarrow> ('w, 'c) smart_subtitle \<Rightarrow>
   text_unit list \<times> ('w, 'c) smart_subtitle" where
  "smartSplitText_obj measureText text this =
     (let (width, this1) = measureTextWidth_obj measureText text this in
      if width \<le> maxLineWidth (ss_config this1)
      then ([\<lparr>u_text = text, u_start = 0, u_end = length text\<rparr>], this1)
      else
        (let sentenceRegexObj = regexp_literal sentenceRegex;
             matches = fst (js_matchAll sentenceRegexObj text)
         in
         if length matches > 0 then
           sentence_rest_obj measureText text
             (fold (sentence_step_obj measureText) matches ([], 0, this1))
         else splitByPunctuation_obj measureText text 0 this1))"

section \<open>Predicates used to state the properties\<close>

text \<open>
  The width bound of a unit: it fits the budget, or it is a single character that is
  wider than the budget on its own.
\<close>

definition width_ok :: "(jsstring \<Rightarrow> 'w::linorder) \<Rightarrow> 'w \<Rightarrow> text_unit \<Rightarrow> bool" where
  "width_ok m w u = (m (u_text u) \<le> w \<or> (length (u_text u) = 1 \<and> w < m (u_text u)))"

text \<open>The loop invariant of \<open>forceSplitText\<close> behind the width bound.\<close>

definition fs_width_inv :: "(jsstring \<Rightarrow> 'w::linorder) \<Rightarrow> 'w \<Rightarrow> fs_state \<Rightarrow> bool" where
  "fs_width_inv m w st =
     ((fs_currentText st = [] \<or> m (fs_currentText st) \<le> w) \<and> list_all (width_ok m w) (fs_units st))"

text \<open>
  \<open>tiles gap pos s us\<close>: the units \<open>us\<close> lie in the string \<open>s\<close>, which starts at position
  \<open>pos\<close> of the line, from left to right without overlap; each unit is non-empty, its
  text is the slice of the line between its \<open>start\<close> and its \<open>end\<close>, and every character
  that no unit covers satisfies \<open>gap\<close>.
\<close>

fun tiles :: "(jschar \<Rightarrow> bool) \<Rightarrow> nat \<Rightarrow> jsstring \<Rightarrow> text_unit list \<Rightarrow> bool" where
  "tiles gap pos s [] = list_all gap s"
| "tiles gap pos s (u # us) =
     (pos \<le> u_start u \<and> u_end u = u_start u + length (u_text u) \<and> u_text u \<noteq> [] \<and>
      list_all gap (take (u_start u - pos) s) \<and>
      take (length (u_text u)) (drop (u_start u - pos) s) = u_text u \<and>
      tiles gap (u_end u) (drop (u_end u - pos) s) us)"

text \<open>The loop invariant of \<open>forceSplitText\<close> behind the coverage.\<close>

definition fs_tile_inv :: "jsstring \<Rightarrow> nat \<Rightarrow> fs_state \<Rightarrow> bool" where
  "fs_tile_inv t b st =
     (fs_i st \<le> length t \<and> fs_startPos st + length (fs_currentText st) = fs_i st \<and>
      fs_currentText st = take (length (fs_currentText st)) (drop (fs_startPos st) t) \<and>
      tiles (\<lambda>c. False) b (take (fs_startPos st) t) (fs_units st))"

text \<open>
  \<open>mtiles gap pos s ms\<close>: the matches \<open>ms\<close> of a global expression lie in \<open>s\<close> (the
  text from index \<open>pos\<close> on) from left to right, each non-empty and equal to the slice at
  its index, and every character the search skipped before a match satisfies \<open>gap\<close>.
\<close>

fun mtiles :: "(jschar \<Rightarrow> bool) \<Rightarrow> nat \<Rightarrow> jsstring \<Rightarrow> (nat \<times> jsstring) list \<Rightarrow> bool" where
  "mtiles gap pos s [] = True"
| "mtiles gap pos s (x # ms) =
     (pos \<le> fst x \<and> snd x \<noteq> [] \<and>
      list_all gap (take (fst x - pos) s) \<and>
      take (length (snd x)) (drop (fst x - pos) s) = snd x \<and>
      mtiles gap (fst x + length (snd x)) (drop (fst x + length (snd x) - pos) s) ms)"

text \<open>
  Bounds on the characters that lie in no unit of the clause tier and of the whole
  segmenter, used to place the units: clause marks and white space; sentence-ending
  marks, clause marks and white space.
\<close>

definition clauseGap :: "jschar \<Rightarrow> bool" where
  "clauseGap c = (isClauseMark c \<or> isWhiteSpace c)"






text \<open>
  \<open>cells_ok n spans cmap\<close>: the map has \<open>n\<close> cells, and each cell holds the sentinel
  or the index \<open>j\<close> of a unit whose span \<open>spans ! j\<close> contains the cell's position.
\<close>

definition cells_ok :: "nat \<Rightarrow> (nat \<times> nat) list \<Rightarrow> cell list \<Rightarrow> bool" where
  "cells_ok n spans cmap =
     (length cmap = n \<and>
      (\<forall>k<n. cmap ! k = Some (-1) \<or>
         (\<exists>j<length spans. cmap ! k = Some (int j) \<and> fst (spans ! j) \<le> k \<and> k < snd (spans ! j))))"

text \<open>
  A display unit is located in the spoken form when its span ends inside it, has the
  length of the unit's own cleaned text, and the spoken form reads that text there.
\<close>

definition du_located :: "jsstring \<Rightarrow> display_unit \<Rightarrow> bool" where
  "du_located cleanedText d =
     (du_end d = du_start d + length (du_cleanedText d) \<and>
      du_end d \<le> length cleanedText \<and>
      take (length (du_cleanedText d)) (drop (du_start d) cleanedText) = du_cleanedText d)"

definition du_span :: "display_unit \<Rightarrow> nat \<times> nat" where
  "du_span d = (du_start d, du_end d)"

definition u_span :: "text_unit \<Rightarrow> nat \<times> nat" where
  "u_span u = (u_start u, u_end u)"

text \<open>The loop invariants of the two aligners.\<close>

definition align_inv :: "jsstring \<Rightarrow> display_unit list \<times> cell list \<Rightarrow> bool" where
  "align_inv cleanedText acc =
     (cells_ok (length cleanedText) (map du_span (fst acc)) (snd acc) \<and>
      list_all (du_located cleanedText) (fst acc))"

definition reading_inv :: "jsstring \<Rightarrow> text_unit list \<times> cell list \<times> nat \<Rightarrow> bool" where
  "reading_inv cleanedText st =
     cells_ok (length cleanedText) (map u_span (fst st)) (fst (snd st))"

section \<open>Properties of getCurrentUnit\<close>

text \<open>
  The branches of \<open>getCurrentUnit\<close>. It returns \<open>null\<close> when \<open>charIndex\<close> is at or
  beyond the length of the map, when the cell is undefined, when the cell holds the
  sentinel \<open>-1\<close>, and when the cell holds a number at or above the number of display
  units; it returns the display unit at the cell's index when that index is between \<open>0\<close>
  and the number of units. The guard \<open>unitIndex !== -1 && unitIndex < displayUnits.length\<close>
  has no lower bound: a cell below \<open>-1\<close> passes it, and the function returns what
  \<open>displayUnits[unitIndex]\<close> evaluates to. No branch throws: the function only compares
  numbers and reads array elements.
\<close>

lemma getCurrentUnit_cases:
  "(int (length m) \<le> ci \<longrightarrow> getCurrentUnit ci m us = Null) \<and>
   (js_get m ci = None \<longrightarrow> getCurrentUnit ci m us = Null) \<and>
   (js_get m ci = Some (-1) \<longrightarrow> getCurrentUnit ci m us = Null) \<and>
   (\<forall>k. js_get m ci = Some k \<and> int (length us) \<le> k \<longrightarrow> getCurrentUnit ci m us = Null) \<and>
   (\<forall>k. js_get m ci = Some k \<and> 0 \<le> k \<and> k < int (length us) \<longrightarrow>
        getCurrentUnit ci m us = Obj (us ! nat k)) \<and>
   (\<forall>k. js_get m ci = Some k \<and> k < -1 \<longrightarrow> getCurrentUnit ci m us = Undefined)"
  by (auto simp: getCurrentUnit_def js_get_def js_index_def split: option.splits)

text \<open>
  Claim C10 on the call \<open>getCurrentUnit(0, {charToUnitMap: [-2], displayUnits: [u]})\<close>.
  The cell \<open>-2\<close> is not the index of a unit of \<open>displayUnits\<close>, so the result should be
  \<open>null\<close>, as the function's own documentation says (\<open>@returns {Object|null}\<close>, the unit
  or \<open>null\<close> when none is found). The function returns \<open>undefined\<close>: the cell is not
  the sentinel and is smaller than the number of units, so the guard lets it through to
  \<open>displayUnits[-2]\<close>.
\<close>

theorem getCurrentUnit_negative_cell_undefined:
  "\<not> (0 \<le> (-2::int) \<and> (-2::int) < int (length [''unit a''])) \<and>
   getCurrentUnit 0 [Some (-2)] [''unit a''] \<noteq> Null \<and>
   getCurrentUnit 0 [Some (-2)] [''unit a''] = Undefined"
  by (simp add: getCurrentUnit_def js_get_def js_index_def)

section \<open>Properties of the boundary handler\<close>

lemma onboundary_same:
  "resolves_to m e k \<Longrightarrow> 0 \<le> k \<Longrightarrow> k < int (length us) \<Longrightarrow>
   onboundary m us (Some k) e = (Some k, [])"
  by (auto simp: onboundary_def resolves_to_def Let_def)

lemma onboundary_switch:
  "resolves_to m e k \<Longrightarrow> 0 \<le> k \<Longrightarrow> k < int (length us) \<Longrightarrow> cur \<noteq> Some k \<Longrightarrow>
   onboundary m us cur e =
     (Some k, [SetSubtitleHTML (du_text (us ! nat k)), AdjustWindowSize (du_text (us ! nat k))])"
  by (auto simp: onboundary_def resolves_to_def Let_def js_index_def)

lemma run_events_same:
  "\<forall>e\<in>set es. resolves_to m e k \<Longrightarrow> 0 \<le> k \<Longrightarrow> k < int (length us) \<Longrightarrow>
   run_events m us (Some k) es = (Some k, [])"
  by (induction es) (auto simp: onboundary_same)

lemma run_events_repeat:
  "es \<noteq> [] \<Longrightarrow> \<forall>e\<in>set es. resolves_to m e k \<Longrightarrow> 0 \<le> k \<Longrightarrow> k < int (length us) \<Longrightarrow>
   cur \<noteq> Some k \<Longrightarrow>
   run_events m us cur es =
     (Some k, [SetSubtitleHTML (du_text (us ! nat k)), AdjustWindowSize (du_text (us ! nat k))])"
  by (cases es) (auto simp: onboundary_switch run_events_same)

text \<open>
  Claim C4. For an event of kind \<open>word\<close> or \<open>sentence\<close> whose offset lies in the map:
  when the cell is the sentinel, the state is unchanged and nothing is emitted; when the
  cell is the current unit, nothing is emitted; when the cell is another unit of
  \<open>displayUnits\<close>, the state becomes that unit and the handler emits one update of the
  subtitle (followed by the window adjustment) carrying the unit's text. An event of any
  other kind changes nothing. A non-empty run of events that all resolve to the same
  unit, started in another state, emits the update once in total.
\<close>

theorem onboundary_transition:
  "(resolves_to m e (-1) \<longrightarrow> onboundary m us cur e = (cur, [])) \<and>
   (resolves_to m e k \<and> cur = Some k \<longrightarrow> onboundary m us cur e = (cur, [])) \<and>
   (resolves_to m e k \<and> cur \<noteq> Some k \<and> 0 \<le> k \<and> k < int (length us) \<longrightarrow>
      onboundary m us cur e =
        (Some k, [SetSubtitleHTML (du_text (us ! nat k)), AdjustWindowSize (du_text (us ! nat k))])) \<and>
   (ev_name e \<noteq> ''word'' \<and> ev_name e \<noteq> ''sentence'' \<longrightarrow> onboundary m us cur e = (cur, [])) \<and>
   (es \<noteq> [] \<and> (\<forall>x\<in>set es. resolves_to m x k) \<and> cur \<noteq> Some k \<and> 0 \<le> k \<and> k < int (length us) \<longrightarrow>
      run_events m us cur es =
        (Some k, [SetSubtitleHTML (du_text (us ! nat k)), AdjustWindowSize (du_text (us ! nat k))]) \<and>
      length (filter is_show (snd (run_events m us cur es))) = 1)"
proof (intro conjI impI)
  assume "resolves_to m e (-1)"
  then show "onboundary m us cur e = (cur, [])"
    by (auto simp: onboundary_def resolves_to_def Let_def)
next
  assume "resolves_to m e k \<and> cur = Some k"
  then show "onboundary m us cur e = (cur, [])"
    by (auto simp: onboundary_def resolves_to_def Let_def)
next
  assume "resolves_to m e k \<and> cur \<noteq> Some k \<and> 0 \<le> k \<and> k < int (length us)"
  then show "onboundary m us cur e =
        (Some k, [SetSubtitleHTML (du_text (us ! nat k)), AdjustWindowSize (du_text (us ! nat k))])"
    by (simp add: onboundary_switch)
next
  assume "ev_name e \<noteq> ''word'' \<and> ev_name e \<noteq> ''sentence''"
  then show "onboundary m us cur e = (cur, [])"
    by (simp add: onboundary_def)
next
  assume a: "es \<noteq> [] \<and> (\<forall>x\<in>set es. resolves_to m x k) \<and> cur \<noteq> Some k \<and> 0 \<le> k \<and> k < int (length us)"
  then show r: "run_events m us cur es =
        (Some k, [SetSubtitleHTML (du_text (us ! nat k)), AdjustWindowSize (du_text (us ! nat k))])"
    by (simp add: run_events_repeat)
  show "length (filter is_show (snd (run_events m us cur es))) = 1"
    by (simp add: r)
qed

theorem onboundary_transition_witness:
  "onboundary [Some 0, Some 0, Some (-1), Some 1]
     [\<lparr>du_text = js ''Hi.'', du_cleanedText = js ''Hi.'', du_start = 0, du_end = 2\<rparr>,
      \<lparr>du_text = js ''Yo'', du_cleanedText = js ''Yo'', du_start = 3, du_end = 4\<rparr>]
     (Some 0) \<lparr>ev_name = ''word'', ev_charIndex = Some 2\<rparr> = (Some 0, []) \<and>
   onboundary [Some 0, Some 0, Some (-1), Some 1]
     [\<lparr>du_text = js ''Hi.'', du_cleanedText = js ''Hi.'', du_start = 0, du_end = 2\<rparr>,
      \<lparr>du_text = js ''Yo'', du_cleanedText = js ''Yo'', du_start = 3, du_end = 4\<rparr>]
     (Some 0) \<lparr>ev_name = ''sentence'', ev_charIndex = Some 3\<rparr> =
       (Some 1, [SetSubtitleHTML (js ''Yo''), AdjustWindowSize (js ''Yo'')]) \<and>
   run_events [Some 0, Some 0, Some (-1), Some 1]
     [\<lparr>du_text = js ''Hi.'', du_cleanedText = js ''Hi.'', du_start = 0, du_end = 2\<rparr>,
      \<lparr>du_text = js ''Yo'', du_cleanedText = js ''Yo'', du_start = 3, du_end = 4\<rparr>]
     (Some (-1))
     [\<lparr>ev_name = ''word'', ev_charIndex = None\<rparr>, \<lparr>ev_name = ''word'', ev_charIndex = Some 1\<rparr>] =
       (Some 0, [SetSubtitleHTML (js ''Hi.''), AdjustWindowSize (js ''Hi.'')])"
  using
    onboundary_transition [of "[Some 0, Some 0, Some (-1), Some 1]"
      "\<lparr>ev_name = ''word'', ev_charIndex = Some 2\<rparr>"
      "[\<lparr>du_text = js ''Hi.'', du_cleanedText = js ''Hi.'', du_start = 0, du_end = 2\<rparr>,
        \<lparr>du_text = js ''Yo'', du_cleanedText = js ''Yo'', du_start = 3, du_end = 4\<rparr>]"
      "Some 0" 0 "[]"]
    onboundary_transition [of "[Some 0, Some 0, Some (-1), Some 1]"
      "\<lparr>ev_name = ''sentence'', ev_charIndex = Some 3\<rparr>"
      "[\<lparr>du_text = js ''Hi.'', du_cleanedText = js ''Hi.'', du_start = 0, du_end = 2\<rparr>,
        \<lparr>du_text = js ''Yo'', du_cleanedText = js ''Yo'', du_start = 3, du_end = 4\<rparr>]"
      "Some 0" 1 "[]"]
    onboundary_transition [of "[Some 0, Some 0, Some (-1), Some 1]"
      "\<lparr>ev_name = ''word'', ev_charIndex = None\<rparr>"
      "[\<lparr>du_text = js ''Hi.'', du_cleanedText = js ''Hi.'', du_start = 0, du_end = 2\<rparr>,
        \<lparr>du_text = js ''Yo'', du_cleanedText = js ''Yo'', du_start = 3, du_end = 4\<rparr>]"
      "Some (-1)" 0
      "[\<lparr>ev_name = ''word'', ev_charIndex = None\<rparr>, \<lparr>ev_name = ''word'', ev_charIndex = Some 1\<rparr>]"]
  by (simp add: resolves_to_def onboundary_def js_index_def Let_def)

section \<open>Properties of forceSplitText\<close>

declare forceSplit_loop.simps [simp del]

lemma fs_step_variant:
  "fs_i st < length t \<Longrightarrow>
   fs_variant t (forceSplit_step m w t b st) < fs_variant t st"
  by (auto simp: fs_variant_def forceSplit_step_def Let_def)

lemma forceSplit_bounded_enough:
  "fs_variant t st \<le> n \<Longrightarrow>
   forceSplit_bounded n m w t b st = Some (forceSplit_loop m w t b st)"
proof (induction n arbitrary: st)
  case 0
  then have "\<not> fs_i st < length t"
    by (auto simp: fs_variant_def split: if_splits)
  then show ?case
    by (simp add: forceSplit_loop.simps)
next
  case (Suc n)
  show ?case
  proof (cases "fs_i st < length t")
    case True
    then have "fs_variant t (forceSplit_step m w t b st) \<le> n"
      using fs_step_variant [of st t m w b] Suc.prems by simp
    then show ?thesis
      using True Suc.IH by (simp add: forceSplit_loop.simps [of m w t b st])
  next
    case False
    then show ?thesis
      by (simp add: forceSplit_loop.simps)
  qed
qed

lemma forceSplit_loop_inv:
  assumes "P st"
    and "\<And>s. P s \<Longrightarrow> fs_i s < length t \<Longrightarrow> P (forceSplit_step m w t b s)"
  shows "P (forceSplit_loop m w t b st) \<and> length t \<le> fs_i (forceSplit_loop m w t b st)"
  using assms(1)
proof (induction "fs_variant t st" arbitrary: st rule: less_induct)
  case less
  show ?case
  proof (cases "fs_i st < length t")
    case True
    have "P (forceSplit_step m w t b st)"
      using assms(2) less.prems True by blast
    then show ?thesis
      using less.hyps [OF fs_step_variant [OF True]] True
      by (simp add: forceSplit_loop.simps [of m w t b st])
  next
    case False
    then show ?thesis
      using less.prems by (simp add: forceSplit_loop.simps)
  qed
qed

lemma fs_width_step:
  "fs_width_inv m w st \<Longrightarrow> fs_width_inv m w (forceSplit_step m w t b st)"
  by (cases "fs_currentText st = []")
     (auto simp: fs_width_inv_def forceSplit_step_def Let_def width_ok_def not_less)

lemma forceSplitText_width:
  "list_all (width_ok m w) (forceSplitText m w t b)"
proof -
  have "fs_width_inv m w fs_init"
    by (simp add: fs_width_inv_def fs_init_def)
  then have "fs_width_inv m w (forceSplit_loop m w t b fs_init)"
    using forceSplit_loop_inv [where P = "fs_width_inv m w"] fs_width_step by blast
  then show ?thesis
    by (auto simp: forceSplitText_def fs_finish_def fs_width_inv_def width_ok_def)
qed

lemma take_drop_eq_len:
  assumes "take (length x) (drop k s) = x" and "x \<noteq> []"
  shows "k + length x \<le> length s"
proof -
  have "length (take (length x) (drop k s)) = length x"
    using assms(1) by simp
  then have "length x \<le> length s - k"
    by (simp add: min_def split: if_splits)
  moreover have "0 < length x"
    using assms(2) by simp
  ultimately show ?thesis by arith
qed

lemma tiles_gap_prefix:
  "list_all gap g \<Longrightarrow> tiles gap (pos + length g) s us \<Longrightarrow> tiles gap pos (g @ s) us"
  by (cases us) auto

lemma tiles_append:
  "tiles gap pos s1 us1 \<Longrightarrow> tiles gap (pos + length s1) s2 us2 \<Longrightarrow>
   tiles gap pos (s1 @ s2) (us1 @ us2)"
proof (induction us1 arbitrary: pos s1)
  case Nil
  then show ?case by (simp add: tiles_gap_prefix)
next
  case (Cons u us1)
  let ?k = "u_end u - pos"
  from Cons.prems(1) have a: "pos \<le> u_start u" "u_end u = u_start u + length (u_text u)"
    "u_text u \<noteq> []" "list_all gap (take (u_start u - pos) s1)"
    "take (length (u_text u)) (drop (u_start u - pos) s1) = u_text u"
    "tiles gap (u_end u) (drop ?k s1) us1"
    by auto
  have len: "u_start u - pos + length (u_text u) \<le> length s1"
    using take_drop_eq_len [OF a(5) a(3)] .
  then have k: "?k \<le> length s1" using a by simp
  have eq: "u_end u + length (drop ?k s1) = pos + length s1"
    using k a(1,2) by simp
  have "tiles gap (u_end u + length (drop ?k s1)) s2 us2"
    unfolding eq using Cons.prems(2) .
  then have "tiles gap (u_end u) (drop ?k s1 @ s2) (us1 @ us2)"
    using Cons.IH [OF a(6)] by simp
  moreover have "drop ?k (s1 @ s2) = drop ?k s1 @ s2" using k by simp
  ultimately have f6: "tiles gap (u_end u) (drop ?k (s1 @ s2)) (us1 @ us2)" by simp
  have e4: "take (u_start u - pos) (s1 @ s2) = take (u_start u - pos) s1"
    using len by simp
  have f4: "list_all gap (take (u_start u - pos) (s1 @ s2))"
    unfolding e4 by (rule a(4))
  have f5: "take (length (u_text u)) (drop (u_start u - pos) (s1 @ s2)) = u_text u"
    using len a(5) by simp
  show ?case
    unfolding append_Cons tiles.simps using a(1,2,3) f4 f5 f6 by blast
qed

lemma tiles_mono:
  "tiles gap pos s us \<Longrightarrow> (\<And>c. gap c \<Longrightarrow> gap' c) \<Longrightarrow> tiles gap' pos s us"
  by (induction us arbitrary: pos s) (auto simp: list_all_iff)

lemma tiles_single:
  "s \<noteq> [] \<Longrightarrow> tiles gap pos s [\<lparr>u_text = s, u_start = pos, u_end = pos + length s\<rparr>]"
  by simp

lemma take_Suc_drop:
  "sp + n < length t \<Longrightarrow> take (Suc n) (drop sp t) = take n (drop sp t) @ [t ! (sp + n)]"
  by (simp add: take_Suc_conv_app_nth)

lemma take_add_split:
  "take (a + n) t = take a t @ take n (drop a t)"
  by (simp add: take_add)

lemma fs_tile_step:
  assumes inv: "fs_tile_inv t b st" and lt: "fs_i st < length t"
  shows "fs_tile_inv t b (forceSplit_step m w t b st)"
proof -
  let ?cur = "fs_currentText st" and ?sp = "fs_startPos st" and ?i = "fs_i st"
  from inv have i: "?sp + length ?cur = ?i"
    and cur: "?cur = take (length ?cur) (drop ?sp t)"
    and til: "tiles (\<lambda>c. False) b (take ?sp t) (fs_units st)"
    by (auto simp: fs_tile_inv_def)
  have sp: "?sp \<le> length t" using i lt by simp
  have lsp: "length (take ?sp t) = ?sp" using sp by simp
  have cur': "?cur @ [t ! ?i] = take (Suc (length ?cur)) (drop ?sp t)"
    using take_Suc_drop [of ?sp "length ?cur" t] i lt cur by simp
  show ?thesis
  proof (cases "w < m (?cur @ [t ! ?i])")
    case False
    then show ?thesis
      using inv lt i cur' by (simp add: forceSplit_step_def Let_def fs_tile_inv_def)
  next
    case over: True
    show ?thesis
    proof (cases "?cur = []")
      case True
      then have spi: "?sp = ?i" using i by simp
      let ?u = "\<lparr>u_text = [t ! ?i], u_start = b + ?sp, u_end = b + ?sp + 1\<rparr>"
      have "tiles (\<lambda>c. False) (b + length (take ?sp t)) [t ! ?i] [?u]"
        unfolding lsp by simp
      then have "tiles (\<lambda>c. False) b (take ?sp t @ [t ! ?i]) (fs_units st @ [?u])"
        using tiles_append [OF til] by blast
      moreover have "take (Suc ?i) t = take ?sp t @ [t ! ?i]"
        using lt spi by (simp add: take_Suc_conv_app_nth)
      ultimately show ?thesis
        using over True lt by (simp add: forceSplit_step_def Let_def fs_tile_inv_def)
    next
      case False
      let ?u = "\<lparr>u_text = ?cur, u_start = b + ?sp, u_end = b + ?sp + length ?cur\<rparr>"
      have "tiles (\<lambda>c. False) (b + length (take ?sp t)) ?cur [?u]"
        unfolding lsp using False by simp
      then have "tiles (\<lambda>c. False) b (take ?sp t @ ?cur) (fs_units st @ [?u])"
        using tiles_append [OF til] by blast
      moreover have "take ?i t = take ?sp t @ ?cur"
        using take_add_split [of ?sp "length ?cur" t] i cur by simp
      ultimately show ?thesis
        using over False lt by (simp add: forceSplit_step_def Let_def fs_tile_inv_def)
    qed
  qed
qed

lemma forceSplitText_tiles:
  "tiles (\<lambda>c. False) b t (forceSplitText m w t b)"
proof -
  let ?st = "forceSplit_loop m w t b fs_init"
  have "fs_tile_inv t b fs_init"
    by (simp add: fs_tile_inv_def fs_init_def)
  then have "fs_tile_inv t b ?st \<and> length t \<le> fs_i ?st"
    using forceSplit_loop_inv [where P = "fs_tile_inv t b"] fs_tile_step by blast
  then have i: "fs_startPos ?st + length (fs_currentText ?st) = length t"
    and cur: "fs_currentText ?st = take (length (fs_currentText ?st)) (drop (fs_startPos ?st) t)"
    and til: "tiles (\<lambda>c. False) b (take (fs_startPos ?st) t) (fs_units ?st)"
    by (auto simp: fs_tile_inv_def)
  have sp: "fs_startPos ?st \<le> length t" using i by simp
  have lsp: "length (take (fs_startPos ?st) t) = fs_startPos ?st" using sp by simp
  show ?thesis
  proof (cases "fs_currentText ?st = []")
    case True
    then have "take (fs_startPos ?st) t = t" using i by simp
    then show ?thesis
      using til True by (simp add: forceSplitText_def fs_finish_def)
  next
    case False
    let ?u = "\<lparr>u_text = fs_currentText ?st, u_start = b + fs_startPos ?st, u_end = b + length t\<rparr>"
    have "b + length t = b + fs_startPos ?st + length (fs_currentText ?st)"
      using i by simp
    then have "tiles (\<lambda>c. False) (b + length (take (fs_startPos ?st) t)) (fs_currentText ?st) [?u]"
      unfolding lsp using False by simp
    then have "tiles (\<lambda>c. False) b (take (fs_startPos ?st) t @ fs_currentText ?st) (fs_units ?st @ [?u])"
      using tiles_append [OF til] by blast
    moreover have "t = take (fs_startPos ?st) t @ fs_currentText ?st"
      using take_add_split [of "fs_startPos ?st" "length (fs_currentText ?st)" t] i cur by simp
    ultimately show ?thesis
      using False by (simp add: forceSplitText_def fs_finish_def)
  qed
qed

lemma tiles_nonempty: "tiles gap pos s us \<Longrightarrow> list_all (\<lambda>u. u_text u \<noteq> []) us"
  by (induction us arbitrary: pos s) auto

lemma tiles_False_concat: "tiles (\<lambda>c. False) pos s us \<Longrightarrow> concat (map u_text us) = s"
proof (induction us arbitrary: pos s)
  case Nil
  then show ?case by (cases s) auto
next
  case (Cons u us)
  then have g: "list_all (\<lambda>c. False) (take (u_start u - pos) s)"
    and tk: "take (length (u_text u)) (drop (u_start u - pos) s) = u_text u"
    and e: "u_end u = u_start u + length (u_text u)" and ne: "u_text u \<noteq> []"
    and p: "pos \<le> u_start u"
    and r: "tiles (\<lambda>c. False) (u_end u) (drop (u_end u - pos) s) us"
    by auto
  have len: "u_start u - pos + length (u_text u) \<le> length s"
    using take_drop_eq_len [OF tk ne] .
  have z: "u_start u - pos = 0"
  proof (rule ccontr)
    assume "u_start u - pos \<noteq> 0"
    then have "take (u_start u - pos) s \<noteq> []" using len ne by auto
    then show False using g by (cases "take (u_start u - pos) s") auto
  qed
  have "concat (map u_text us) = drop (u_end u - pos) s"
    using Cons.IH [OF r] .
  moreover have "u_end u - pos = length (u_text u)" using z e p by simp
  moreover have "take (length (u_text u)) s = u_text u" using tk z by simp
  ultimately show ?case
    by (metis append_take_drop_id concat.simps(2) list.simps(9))
qed

text \<open>
  Claim C9. \<open>forceSplitText\<close> terminates for every string and every width oracle,
  including one that finds every string too wide: the loop body runs at most twice per
  character, so the loop with a bound of \<open>2 * text.length\<close> runs of its body reaches its
  end and returns the state of the unbounded loop. Every unit it emits holds at least one
  character, and the units together are the input, each character once.
\<close>

theorem forceSplitText_terminates:
  "forceSplit_bounded (2 * length line) m w line b fs_init =
     Some (forceSplit_loop m w line b fs_init) \<and>
   list_all (\<lambda>u. u_text u \<noteq> []) (forceSplitText m w line b) \<and>
   concat (map u_text (forceSplitText m w line b)) = line"
proof (intro conjI)
  have "fs_variant line fs_init \<le> 2 * length line"
    by (simp add: fs_variant_def fs_init_def)
  then show "forceSplit_bounded (2 * length line) m w line b fs_init =
     Some (forceSplit_loop m w line b fs_init)"
    by (rule forceSplit_bounded_enough)
  show "list_all (\<lambda>u. u_text u \<noteq> []) (forceSplitText m w line b)"
    using forceSplitText_tiles by (rule tiles_nonempty)
  show "concat (map u_text (forceSplitText m w line b)) = line"
    using forceSplitText_tiles by (rule tiles_False_concat)
qed

theorem forceSplitText_terminates_witness:
  "forceSplit_bounded 6 (\<lambda>s. 1::nat) 0 (js ''abc'') 0 fs_init \<noteq> None \<and>
   map u_text (forceSplitText (\<lambda>s. 1::nat) 0 (js ''abc'') 0) = [js ''a'', js ''b'', js ''c'']"
  using forceSplitText_terminates [of "js ''abc''" "\<lambda>s. 1::nat" 0 0]
  by (simp add: js_def forceSplitText_def forceSplit_loop.simps forceSplit_step_def fs_finish_def fs_init_def Let_def)

section \<open>Properties of the regular expressions\<close>

lemma firstSome_None: "(\<And>x. x \<in> set xs \<Longrightarrow> x = None) \<Longrightarrow> firstSome xs = None"
  by (induction xs rule: firstSome.induct) auto


lemma firstSome_greedy:
  assumes "a \<le> n" and "f n \<noteq> None \<or> (\<forall>k. a \<le> k \<and> k < n \<longrightarrow> f k = None)"
  shows "firstSome (map f (rev [a..<Suc n])) = f n"
proof (cases "f n")
  case None
  then have low: "\<forall>k. a \<le> k \<and> k < n \<longrightarrow> f k = None" using assms(2) by blast
  have "firstSome (map f (rev [a..<n])) = None"
  proof (rule firstSome_None)
    fix x assume "x \<in> set (map f (rev [a..<n]))"
    then obtain k where "k \<in> set (rev [a..<n])" and "x = f k" by auto
    then show "x = None" using low by simp
  qed
  then show ?thesis using assms(1) None by simp
next
  case (Some y)
  then show ?thesis using assms(1) by simp
qed



lemma rmatch_Ch_fail: "d \<noteq> [] \<Longrightarrow> \<not> q (hd d) \<Longrightarrow> rmatch (Ch q # r) d = None"
  by (cases d) auto

lemma rmatch_Ch_single:
  "d = [] \<or> q (hd d) \<Longrightarrow> rmatch [Ch q] d = (if d = [] then None else Some (tl d))"
  by (cases d) auto

lemma rmatch_Opt_Ch_single:
  "d = [] \<or> q (hd d) \<Longrightarrow> rmatch [Opt [Ch q]] d = Some (tl d)"
  by (cases d) auto

lemma takeWhile_run:
  assumes "k < length (takeWhile p s)"
  shows "drop k s \<noteq> [] \<and> p (hd (drop k s))"
proof -
  have kl: "k < length s"
    using assms length_takeWhile_le [of p s] by (rule less_le_trans)
  have "p (s ! k)"
    using assms by (metis nth_mem set_takeWhileD takeWhile_nth)
  then show ?thesis
    using kl by (simp add: hd_drop_conv_nth)
qed

lemma rmatch_Rep1:
  assumes "takeWhile p s \<noteq> []"
    and "f (length (takeWhile p s)) \<noteq> None \<or>
         (\<forall>k. Suc 0 \<le> k \<and> k < length (takeWhile p s) \<longrightarrow> f k = None)"
    and "f = (\<lambda>k. rmatch r (drop k s))"
  shows "rmatch (Rep p 1 # r) s = rmatch r (dropWhile p s)"
proof -
  have n: "Suc 0 \<le> length (takeWhile p s)"
    using assms(1) by (simp add: Suc_le_eq)
  have "rmatch (Rep p 1 # r) s = firstSome (map f (rev [Suc 0..<Suc (length (takeWhile p s))]))"
    unfolding assms(3) by simp
  also have "\<dots> = f (length (takeWhile p s))"
    using n assms(2) by (rule firstSome_greedy)
  also have "\<dots> = rmatch r (dropWhile p s)"
    unfolding assms(3) by (simp add: dropWhile_eq_drop)
  finally show ?thesis .
qed

lemma rmatch_Rep1_empty: "takeWhile p s = [] \<Longrightarrow> rmatch (Rep p 1 # r) s = None"
  by simp

lemma rmatch_sentenceRegex:
  "rmatch sentenceRegex s =
     (if takeWhile (\<lambda>c. \<not> isSentenceEnd c) s \<noteq> [] \<and> dropWhile (\<lambda>c. \<not> isSentenceEnd c) s \<noteq> []
      then Some (tl (dropWhile (\<lambda>c. \<not> isSentenceEnd c) s)) else None)"
proof (cases "takeWhile (\<lambda>c. \<not> isSentenceEnd c) s = []")
  case True
  then show ?thesis
    unfolding sentenceRegex_def by (simp only: rmatch_Rep1_empty if_False simp_thms)
next
  case False
  let ?p = "\<lambda>c. \<not> isSentenceEnd c"
  have low: "\<forall>k. Suc 0 \<le> k \<and> k < length (takeWhile ?p s) \<longrightarrow>
                rmatch [Ch isSentenceEnd] (drop k s) = None"
    using takeWhile_run [of _ ?p s] rmatch_Ch_fail [of _ isSentenceEnd "[]"] by blast
  have "rmatch sentenceRegex s = rmatch [Ch isSentenceEnd] (dropWhile ?p s)"
    unfolding sentenceRegex_def
    by (rule rmatch_Rep1 [OF False, where f = "\<lambda>k. rmatch [Ch isSentenceEnd] (drop k s)"])
       (use low in blast, rule refl)
  also have "\<dots> = (if dropWhile ?p s = [] then None else Some (tl (dropWhile ?p s)))"
    by (rule rmatch_Ch_single) (use hd_dropWhile [of ?p s] in blast)
  finally show ?thesis using False by simp
qed

lemma rmatch_punctRegex:
  "rmatch punctRegex s =
     (if takeWhile (\<lambda>c. \<not> isClauseMark c) s \<noteq> []
      then Some (tl (dropWhile (\<lambda>c. \<not> isClauseMark c) s)) else None)"
proof (cases "takeWhile (\<lambda>c. \<not> isClauseMark c) s = []")
  case True
  then show ?thesis
    unfolding punctRegex_def by (simp only: rmatch_Rep1_empty if_False simp_thms)
next
  case False
  let ?p = "\<lambda>c. \<not> isClauseMark c"
  have top: "rmatch [Opt [Ch isClauseMark]] (dropWhile ?p s) = Some (tl (dropWhile ?p s))"
    by (rule rmatch_Opt_Ch_single) (use hd_dropWhile [of ?p s] in blast)
  have top': "rmatch [Opt [Ch isClauseMark]] (drop (length (takeWhile ?p s)) s) \<noteq> None"
    using top by (simp add: dropWhile_eq_drop)
  have "rmatch punctRegex s = rmatch [Opt [Ch isClauseMark]] (dropWhile ?p s)"
    unfolding punctRegex_def
    by (rule rmatch_Rep1 [OF False, where f = "\<lambda>k. rmatch [Opt [Ch isClauseMark]] (drop k s)"])
       (use top' in blast, rule refl)
  then show ?thesis using False top by simp
qed


lemma mtiles_shift:
  "gap c \<or> ms = [] \<Longrightarrow> mtiles gap (Suc i) cs ms \<Longrightarrow> mtiles gap i (c # cs) ms"
proof (cases ms)
  case Nil
  then show ?thesis by simp
next
  case (Cons x ms')
  assume g: "gap c \<or> ms = []" and m: "mtiles gap (Suc i) cs ms"
  from m Cons have a: "Suc i \<le> fst x" "snd x \<noteq> []"
    "list_all gap (take (fst x - Suc i) cs)"
    "take (length (snd x)) (drop (fst x - Suc i) cs) = snd x"
    "mtiles gap (fst x + length (snd x)) (drop (fst x + length (snd x) - Suc i) cs) ms'"
    by auto
  have e1: "fst x - i = Suc (fst x - Suc i)" using a(1) by simp
  have e2: "fst x + length (snd x) - i = Suc (fst x + length (snd x) - Suc i)" using a(1) by simp
  have gc: "gap c" using g Cons by simp
  show ?thesis
    unfolding Cons mtiles.simps e1 e2 take_Suc_Cons drop_Suc_Cons
    using a gc by simp
qed

lemma matchAllFrom_mtiles:
  assumes fail: "\<And>c cs j. rmatch pat (c # cs) = None \<Longrightarrow> gap c \<or> matchAllFrom pat j cs = []"
    and nonempty: "\<And>s r. rmatch pat s = Some r \<Longrightarrow> length r < length s"
  shows "mtiles gap i s (matchAllFrom pat i s)"
proof (induction s arbitrary: i rule: length_induct)
  case (1 s)
  show ?case
  proof (cases s)
    case Nil
    have "rmatch pat [] = None"
      using nonempty [of "[]"] by (cases "rmatch pat []") auto
    then show ?thesis using Nil by simp
  next
    case (Cons c cs)
    show ?thesis
    proof (cases "rmatch pat (c # cs)")
      case None
      have "mtiles gap (Suc i) cs (matchAllFrom pat (Suc i) cs)"
        using 1 Cons by simp
      moreover have "gap c \<or> matchAllFrom pat (Suc i) cs = []"
        using fail [OF None] .
      ultimately have "mtiles gap i (c # cs) (matchAllFrom pat (Suc i) cs)"
        by (rule mtiles_shift [rotated])
      then show ?thesis using None Cons by simp
    next
      case (Some r)
      let ?k = "Suc (length cs) - length r"
      have lt: "length r < Suc (length cs)" using nonempty [OF Some] by simp
      then have k0: "?k \<noteq> 0" and kl: "?k \<le> Suc (length cs)" by auto
      have "length (drop ?k (c # cs)) < length s" using Cons k0 by simp
      then have ih: "mtiles gap (i + ?k) (drop ?k (c # cs)) (matchAllFrom pat (i + ?k) (drop ?k (c # cs)))"
        using 1 by blast
      have res: "matchAllFrom pat i (c # cs) =
          (i, take ?k (c # cs)) # matchAllFrom pat (i + ?k) (drop ?k (c # cs))"
        using Some k0 by (simp add: Let_def)
      have len: "length (take ?k (c # cs)) = ?k" using kl by simp
      have ne: "take ?k (c # cs) \<noteq> []" using k0 len by (metis list.size(3))
      show ?thesis
        unfolding Cons res mtiles.simps fst_conv snd_conv len
        using ih ne by simp
    qed
  qed
qed

lemma matchAllFrom_sentence_none:
  "list_all (\<lambda>c. \<not> isSentenceEnd c) s \<Longrightarrow> matchAllFrom sentenceRegex j s = []"
proof (induction s arbitrary: j)
  case Nil
  then show ?case by (simp add: rmatch_sentenceRegex)
next
  case (Cons c cs)
  then have "dropWhile (\<lambda>c. \<not> isSentenceEnd c) (c # cs) = []"
    by (simp add: list_all_iff)
  then have "rmatch sentenceRegex (c # cs) = None"
    by (simp only: rmatch_sentenceRegex simp_thms if_False)
  then show ?case using Cons by simp
qed

lemma matchAll_sentence_mtiles:
  "mtiles isSentenceEnd i s (matchAllFrom sentenceRegex i s)"
proof (rule matchAllFrom_mtiles)
  fix c cs j
  assume none: "rmatch sentenceRegex (c # cs) = None"
  show "isSentenceEnd c \<or> matchAllFrom sentenceRegex j cs = []"
  proof (cases "isSentenceEnd c")
    case True
    then show ?thesis by simp
  next
    case False
    then have "takeWhile (\<lambda>c. \<not> isSentenceEnd c) (c # cs) \<noteq> []" by simp
    then have "dropWhile (\<lambda>c. \<not> isSentenceEnd c) (c # cs) = []"
      using none unfolding rmatch_sentenceRegex by (simp split: if_splits)
    then have "list_all (\<lambda>c. \<not> isSentenceEnd c) cs"
      using False by (simp add: list_all_iff)
    then show ?thesis by (simp add: matchAllFrom_sentence_none)
  qed
next
  fix s r
  assume "rmatch sentenceRegex s = Some r"
  then have r: "r = tl (dropWhile (\<lambda>c. \<not> isSentenceEnd c) s)"
    and ne: "dropWhile (\<lambda>c. \<not> isSentenceEnd c) s \<noteq> []"
    unfolding rmatch_sentenceRegex by (auto split: if_splits)
  have "length r < length (dropWhile (\<lambda>c. \<not> isSentenceEnd c) s)"
    unfolding r using ne by simp
  also have "\<dots> \<le> length s" by (rule length_dropWhile_le)
  finally show "length r < length s" .
qed

lemma matchAll_punct_mtiles:
  "mtiles isClauseMark i s (matchAllFrom punctRegex i s)"
proof (rule matchAllFrom_mtiles)
  fix c cs j
  assume none: "rmatch punctRegex (c # cs) = None"
  then have "takeWhile (\<lambda>c. \<not> isClauseMark c) (c # cs) = []"
    unfolding rmatch_punctRegex by (simp split: if_splits)
  then have "isClauseMark c" by (simp split: if_splits)
  then show "isClauseMark c \<or> matchAllFrom punctRegex j cs = []" by simp
next
  fix s r
  assume "rmatch punctRegex s = Some r"
  then have r: "r = tl (dropWhile (\<lambda>c. \<not> isClauseMark c) s)"
    and ne: "takeWhile (\<lambda>c. \<not> isClauseMark c) s \<noteq> []"
    unfolding rmatch_punctRegex by (auto split: if_splits)
  have "length (takeWhile (\<lambda>c. \<not> isClauseMark c) s) + length (dropWhile (\<lambda>c. \<not> isClauseMark c) s) = length s"
    by (metis length_append takeWhile_dropWhile_id)
  moreover have "0 < length (takeWhile (\<lambda>c. \<not> isClauseMark c) s)" using ne by simp
  moreover have "length r \<le> length (dropWhile (\<lambda>c. \<not> isClauseMark c) s)"
    unfolding r by simp
  ultimately show "length r < length s" by arith
qed



lemma run_split:
  assumes "dropWhile p s \<noteq> []"
  shows "s = takeWhile p s @ [hd (dropWhile p s)] @ tl (dropWhile p s) \<and>
         take (length s - length (tl (dropWhile p s))) s = takeWhile p s @ [hd (dropWhile p s)] \<and>
         \<not> p (hd (dropWhile p s))"
proof -
  let ?x = "hd (dropWhile p s)" and ?r = "tl (dropWhile p s)"
  have d: "dropWhile p s = ?x # ?r" using assms by simp
  have s: "s = takeWhile p s @ [?x] @ ?r"
    using takeWhile_dropWhile_id [of p s] d by simp
  have s': "(takeWhile p s @ [?x]) @ ?r = s"
    using takeWhile_dropWhile_id [of p s] d by simp
  have "length s = length (takeWhile p s @ [?x]) + length ?r"
    using arg_cong [OF s, of length] by simp
  then have l: "length s - length ?r = length (takeWhile p s @ [?x])" by simp
  have "takeWhile p s @ [?x] = take (length (takeWhile p s @ [?x])) s"
    using append_eq_conv_conj [THEN iffD1, OF s'] by (rule conjunct1)
  then have t: "take (length s - length ?r) s = takeWhile p s @ [?x]"
    unfolding l by (rule sym)
  show ?thesis using s t hd_dropWhile [OF assms] by blast
qed




lemma sentenceRegex_nonempty: "rmatch sentenceRegex s = Some r \<Longrightarrow> length r < length s"
proof -
  assume "rmatch sentenceRegex s = Some r"
  then have r: "r = tl (dropWhile (\<lambda>c. \<not> isSentenceEnd c) s)"
    and ne: "dropWhile (\<lambda>c. \<not> isSentenceEnd c) s \<noteq> []"
    unfolding rmatch_sentenceRegex by (auto split: if_splits)
  have "length r < length (dropWhile (\<lambda>c. \<not> isSentenceEnd c) s)"
    unfolding r using ne by simp
  also have "\<dots> \<le> length s" by (rule length_dropWhile_le)
  finally show "length r < length s" .
qed

lemma punctRegex_nonempty: "rmatch punctRegex s = Some r \<Longrightarrow> length r < length s"
proof -
  assume "rmatch punctRegex s = Some r"
  then have r: "r = tl (dropWhile (\<lambda>c. \<not> isClauseMark c) s)"
    and ne: "takeWhile (\<lambda>c. \<not> isClauseMark c) s \<noteq> []"
    unfolding rmatch_punctRegex by (auto split: if_splits)
  have "length (takeWhile (\<lambda>c. \<not> isClauseMark c) s) + length (dropWhile (\<lambda>c. \<not> isClauseMark c) s) = length s"
    by (metis length_append takeWhile_dropWhile_id)
  moreover have "0 < length (takeWhile (\<lambda>c. \<not> isClauseMark c) s)" using ne by simp
  moreover have "length r \<le> length (dropWhile (\<lambda>c. \<not> isClauseMark c) s)"
    unfolding r by simp
  ultimately show "length r < length s" by arith
qed

lemma mtiles_nonempty: "mtiles gap pos s ms \<Longrightarrow> x \<in> set ms \<Longrightarrow> snd x \<noteq> []"
  by (induction ms arbitrary: pos s) auto

lemma matchAllFrom_punct_tail:
  "(matchAllFrom punctRegex i s = [] \<longrightarrow> list_all isClauseMark s) \<and>
   (matchAllFrom punctRegex i s \<noteq> [] \<longrightarrow>
      i \<le> fst (last (matchAllFrom punctRegex i s)) + length (snd (last (matchAllFrom punctRegex i s))) \<and>
      list_all isClauseMark
        (drop (fst (last (matchAllFrom punctRegex i s)) +
               length (snd (last (matchAllFrom punctRegex i s))) - i) s))"
proof (induction s arbitrary: i rule: length_induct)
  case (1 s)
  show ?case
  proof (cases s)
    case Nil
    then show ?thesis by (simp add: rmatch_punctRegex)
  next
    case (Cons c cs)
    show ?thesis
    proof (cases "rmatch punctRegex (c # cs)")
      case None
      then have "takeWhile (\<lambda>c. \<not> isClauseMark c) (c # cs) = []"
        unfolding rmatch_punctRegex by (simp split: if_splits)
      then have c: "isClauseMark c" by (simp split: if_splits)
      let ?ms = "matchAllFrom punctRegex (Suc i) cs"
      have eq: "matchAllFrom punctRegex i (c # cs) = ?ms" using None by simp
      have ih: "(?ms = [] \<longrightarrow> list_all isClauseMark cs) \<and>
                (?ms \<noteq> [] \<longrightarrow> Suc i \<le> fst (last ?ms) + length (snd (last ?ms)) \<and>
                   list_all isClauseMark (drop (fst (last ?ms) + length (snd (last ?ms)) - Suc i) cs))"
        using 1 Cons by simp
      show ?thesis
      proof (cases "?ms = []")
        case True
        then show ?thesis unfolding Cons eq using ih c by simp
      next
        case False
        let ?e = "fst (last ?ms) + length (snd (last ?ms))"
        have le: "Suc i \<le> ?e" and la: "list_all isClauseMark (drop (?e - Suc i) cs)"
          using ih False by auto
        have "?e - i = Suc (?e - Suc i)" using le by simp
        then have "drop (?e - i) (c # cs) = drop (?e - Suc i) cs" by simp
        then show ?thesis unfolding Cons eq using False le la by simp
      qed
    next
      case (Some r)
      let ?k = "Suc (length cs) - length r"
      have lt: "length r < Suc (length cs)" using punctRegex_nonempty [OF Some] by simp
      then have k0: "?k \<noteq> 0" and kl: "?k \<le> Suc (length cs)" by auto
      let ?ms = "matchAllFrom punctRegex (i + ?k) (drop ?k (c # cs))"
      have eq: "matchAllFrom punctRegex i (c # cs) = (i, take ?k (c # cs)) # ?ms"
        using Some k0 by (simp add: Let_def)
      have len: "length (take ?k (c # cs)) = ?k" using kl by simp
      have "length (drop ?k (c # cs)) < length s" using Cons k0 by simp
      then have ih: "(?ms = [] \<longrightarrow> list_all isClauseMark (drop ?k (c # cs))) \<and>
                (?ms \<noteq> [] \<longrightarrow> i + ?k \<le> fst (last ?ms) + length (snd (last ?ms)) \<and>
                   list_all isClauseMark
                     (drop (fst (last ?ms) + length (snd (last ?ms)) - (i + ?k)) (drop ?k (c # cs))))"
        using 1 by blast
      show ?thesis
      proof (cases "?ms = []")
        case True
        have "list_all isClauseMark (drop ?k (c # cs))" using ih True by blast
        then show ?thesis
          unfolding Cons eq using True len by (simp del: drop_Suc_Cons take_Suc_Cons)
      next
        case False
        let ?e = "fst (last ?ms) + length (snd (last ?ms))"
        have le: "i + ?k \<le> ?e"
          and la: "list_all isClauseMark (drop (?e - (i + ?k)) (drop ?k (c # cs)))"
          using ih False by auto
        have "?e - (i + ?k) + ?k = ?e - i" using le by simp
        then have "drop (?e - (i + ?k)) (drop ?k (c # cs)) = drop (?e - i) (c # cs)"
          by (simp only: drop_drop)
        then have la': "list_all isClauseMark (drop (?e - i) (c # cs))" using la by simp
        have "i \<le> ?e" using le by simp
        then show ?thesis
          unfolding Cons eq using False la' by (simp del: drop_Suc_Cons take_Suc_Cons)
      qed
    qed
  qed
qed

lemma mtiles_slice:
  "mtiles gap pos s ms \<Longrightarrow> x \<in> set ms \<Longrightarrow>
   pos \<le> fst x \<and> take (length (snd x)) (drop (fst x - pos) s) = snd x"
proof (induction ms arbitrary: pos s)
  case Nil
  then show ?case by simp
next
  case (Cons y ms)
  from Cons.prems(1) have a: "pos \<le> fst y" "snd y \<noteq> []"
    "take (length (snd y)) (drop (fst y - pos) s) = snd y"
    "mtiles gap (fst y + length (snd y)) (drop (fst y + length (snd y) - pos) s) ms"
    by auto
  show ?case
  proof (cases "x = y")
    case True
    then show ?thesis using a by simp
  next
    case False
    then have "x \<in> set ms" using Cons.prems(2) by simp
    from Cons.IH [OF a(4) this]
    have b: "fst y + length (snd y) \<le> fst x"
      "take (length (snd x))
         (drop (fst x - (fst y + length (snd y))) (drop (fst y + length (snd y) - pos) s)) = snd x"
      by auto
    have "fst x - (fst y + length (snd y)) + (fst y + length (snd y) - pos) = fst x - pos"
      using b(1) a(1) by simp
    then have "take (length (snd x)) (drop (fst x - pos) s) = snd x"
      using b(2) unfolding drop_drop by simp
    moreover have "pos \<le> fst x" using b(1) a(1) by simp
    ultimately show ?thesis by simp
  qed
qed

lemma matchAllFrom_sentence_last:
  "x \<in> set (matchAllFrom sentenceRegex i s) \<Longrightarrow> isSentenceEnd (last (snd x))"
proof (induction s arbitrary: i rule: length_induct)
  case (1 s)
  show ?case
  proof (cases s)
    case Nil
    then show ?thesis using 1(2) by (simp add: rmatch_sentenceRegex)
  next
    case (Cons c cs)
    show ?thesis
    proof (cases "rmatch sentenceRegex (c # cs)")
      case None
      then have x: "x \<in> set (matchAllFrom sentenceRegex (Suc i) cs)"
        using 1(2) Cons by simp
      have "length cs < length s" using Cons by simp
      then show ?thesis using 1(1) x by blast
    next
      case (Some r)
      let ?p = "\<lambda>c. \<not> isSentenceEnd c"
      let ?k = "Suc (length cs) - length r"
      have lt: "length r < Suc (length cs)" using sentenceRegex_nonempty [OF Some] by simp
      then have k0: "?k \<noteq> 0" by auto
      have eq: "matchAllFrom sentenceRegex i (c # cs) =
          (i, take ?k (c # cs)) # matchAllFrom sentenceRegex (i + ?k) (drop ?k (c # cs))"
        using Some k0 by (simp add: Let_def)
      from Some have r: "r = tl (dropWhile ?p (c # cs))" and ne: "dropWhile ?p (c # cs) \<noteq> []"
        unfolding rmatch_sentenceRegex by (auto split: if_splits)
      from run_split [OF ne]
      have t: "take (length (c # cs) - length r) (c # cs) =
                 takeWhile ?p (c # cs) @ [hd (dropWhile ?p (c # cs))]"
        and h: "isSentenceEnd (hd (dropWhile ?p (c # cs)))"
        unfolding r by auto
      have first: "isSentenceEnd (last (take ?k (c # cs)))"
        using t h by simp
      from 1(2) have "x = (i, take ?k (c # cs)) \<or>
          x \<in> set (matchAllFrom sentenceRegex (i + ?k) (drop ?k (c # cs)))"
        unfolding Cons eq by simp
      then show ?thesis
      proof
        assume "x = (i, take ?k (c # cs))"
        then show ?thesis using first by simp
      next
        assume x: "x \<in> set (matchAllFrom sentenceRegex (i + ?k) (drop ?k (c # cs)))"
        have "length (drop ?k (c # cs)) < length s" using Cons k0 by simp
        then show ?thesis using 1(1) x by blast
      qed
    qed
  qed
qed

section \<open>Properties of the segmenter\<close>

lemma list_all_mono: "list_all P xs \<Longrightarrow> (\<And>x. P x \<Longrightarrow> Q x) \<Longrightarrow> list_all Q xs"
  by (simp add: list_all_iff)

lemma js_trim_empty:
  assumes "js_trim s = []"
  shows "list_all isWhiteSpace s"
proof -
  from assms have "dropWhile isWhiteSpace (rev (dropWhile isWhiteSpace s)) = []"
    by (simp add: js_trim_def)
  then have all: "\<forall>x\<in>set (dropWhile isWhiteSpace s). isWhiteSpace x"
    by simp
  have "dropWhile isWhiteSpace s = []"
  proof (rule ccontr)
    assume ne: "dropWhile isWhiteSpace s \<noteq> []"
    then have "\<not> isWhiteSpace (hd (dropWhile isWhiteSpace s))"
      by (rule hd_dropWhile)
    moreover have "hd (dropWhile isWhiteSpace s) \<in> set (dropWhile isWhiteSpace s)"
      using ne by (rule hd_in_set)
    ultimately show False using all by blast
  qed
  then show ?thesis
    by (simp add: list_all_iff)
qed

lemma fold_step_tiles:
  assumes step: "\<And>x acc. step x acc = (fst acc @ f x, fst x + length (snd x))"
    and f: "\<And>x. snd x \<noteq> [] \<Longrightarrow> tiles g (base + fst x) (snd x) (f x)"
    and gap: "\<And>c. gap c \<Longrightarrow> g c"
  shows "mtiles gap pos (drop pos T) ms \<Longrightarrow> pos \<le> length T \<Longrightarrow> tiles g base (take pos T) us \<Longrightarrow>
         tiles g base (take (snd (fold step ms (us, pos))) T) (fst (fold step ms (us, pos))) \<and>
         snd (fold step ms (us, pos)) \<le> length T"
proof (induction ms arbitrary: pos us)
  case Nil
  then show ?case by simp
next
  case (Cons x ms)
  let ?idx = "fst x" and ?m = "snd x"
  let ?gaps = "take (?idx - pos) (drop pos T)"
  from Cons.prems(1) have a1: "pos \<le> ?idx" and a2: "?m \<noteq> []"
    and a3: "list_all gap ?gaps"
    and a4: "take (length ?m) (drop (?idx - pos) (drop pos T)) = ?m"
    and a5: "mtiles gap (?idx + length ?m) (drop (?idx + length ?m - pos) (drop pos T)) ms"
    by auto
  have dd: "drop (?idx - pos) (drop pos T) = drop ?idx T"
    using a1 by simp
  have a4': "take (length ?m) (drop ?idx T) = ?m"
    using a4 unfolding dd .
  have len: "?idx + length ?m \<le> length T"
    using take_drop_eq_len [OF a4' a2] .
  have dd2: "drop (?idx + length ?m - pos) (drop pos T) = drop (?idx + length ?m) T"
    using a1 by simp
  have a5': "mtiles gap (?idx + length ?m) (drop (?idx + length ?m) T) ms"
    using a5 unfolding dd2 .
  have lg: "length ?gaps = ?idx - pos"
    using len by simp
  have lp: "length (take pos T) = pos"
    using Cons.prems(2) by simp
  have "tiles g (base + pos + length ?gaps) ?m (f x)"
    unfolding lg using f [OF a2] a1 by simp
  then have "tiles g (base + pos) (?gaps @ ?m) (f x)"
    using list_all_mono [OF a3 gap] by (simp add: tiles_gap_prefix)
  then have "tiles g (base + length (take pos T)) (?gaps @ ?m) (f x)"
    unfolding lp .
  then have t1: "tiles g base (take pos T @ (?gaps @ ?m)) (us @ f x)"
    using tiles_append [OF Cons.prems(3)] by blast
  have "take (?idx + length ?m) T = take ?idx T @ take (length ?m) (drop ?idx T)"
    by (rule take_add_split)
  moreover have "take ?idx T = take pos T @ ?gaps"
    using take_add_split [of pos "?idx - pos" T] a1 by simp
  ultimately have "take (?idx + length ?m) T = take pos T @ (?gaps @ ?m)"
    using a4' by simp
  then have t2: "tiles g base (take (?idx + length ?m) T) (us @ f x)"
    using t1 by simp
  have "fold step (x # ms) (us, pos) = fold step ms (us @ f x, ?idx + length ?m)"
    by (simp add: step)
  then show ?case
    using Cons.IH [OF a5' len t2] by simp
qed

lemma fold_step_all:
  assumes step: "\<And>x acc. step x acc = (fst acc @ f x, fst x + length (snd x))"
    and f: "\<And>x. list_all P (f x)"
  shows "list_all P us \<Longrightarrow> list_all P (fst (fold step ms (us, pos)))"
proof (induction ms arbitrary: pos us)
  case Nil
  then show ?case by simp
next
  case (Cons x ms)
  have "list_all P (us @ f x)" using Cons.prems f by simp
  then show ?case using Cons.IH by (simp add: step)
qed


lemma punct_step_eq:
  "punct_step m w b x acc =
     (fst acc @ (if m (snd x) \<le> w
                 then [\<lparr>u_text = snd x, u_start = b + fst x, u_end = b + fst x + length (snd x)\<rparr>]
                 else forceSplitText m w (snd x) (b + fst x)),
      fst x + length (snd x))"
  by (simp add: punct_step_def Let_def)

lemma sentence_step_eq:
  "sentence_step m w x acc =
     (fst acc @ (if m (snd x) \<le> w
                 then [\<lparr>u_text = snd x, u_start = fst x, u_end = fst x + length (snd x)\<rparr>]
                 else splitByPunctuation m w (snd x) (fst x)),
      fst x + length (snd x))"
  by (simp add: sentence_step_def Let_def)

lemma punct_rest_eq:
  "punct_rest m w t b acc =
     (if snd acc < length t
      then (if js_trim (drop (snd acc) t) \<noteq> []
            then fst acc @
              (if m (drop (snd acc) t) \<le> w
               then [\<lparr>u_text = drop (snd acc) t, u_start = b + snd acc, u_end = b + length t\<rparr>]
               else forceSplitText m w (drop (snd acc) t) (b + snd acc))
            else fst acc)
      else fst acc)"
  by (simp add: punct_rest_def Let_def)

lemma sentence_rest_eq:
  "sentence_rest m w t acc =
     (if snd acc < length t
      then (if js_trim (drop (snd acc) t) \<noteq> []
            then fst acc @
              (if m (drop (snd acc) t) \<le> w
               then [\<lparr>u_text = drop (snd acc) t, u_start = snd acc, u_end = length t\<rparr>]
               else splitByPunctuation m w (drop (snd acc) t) (snd acc))
            else fst acc)
      else fst acc)"
  by (simp add: sentence_rest_def Let_def)

lemma forceSplitText_tiles_gap: "tiles g b t (forceSplitText m w t b)"
  using forceSplitText_tiles by (rule tiles_mono) simp



lemma splitByPunctuation_width:
  "list_all (width_ok m w) (splitByPunctuation m w t b)"
proof (cases "matchAll punctRegex t = []")
  case True
  then show ?thesis
    by (simp add: splitByPunctuation_def forceSplitText_width)
next
  case False
  let ?r = "fold (punct_step m w b) (matchAll punctRegex t) ([], 0)"
  have e1: "splitByPunctuation m w t b = punct_rest m w t b ?r"
    using False by (simp add: splitByPunctuation_def Let_def)
  have "list_all (width_ok m w) (fst ?r)"
    by (rule fold_step_all [OF punct_step_eq]) (simp_all add: forceSplitText_width width_ok_def)
  then show ?thesis
    unfolding e1 punct_rest_eq by (simp add: forceSplitText_width width_ok_def)
qed

lemma smartSplitText_width:
  "list_all (width_ok m w) (smartSplitText m w t)"
proof (cases "m t \<le> w")
  case True
  then show ?thesis by (simp add: smartSplitText_def width_ok_def)
next
  case over: False
  show ?thesis
  proof (cases "matchAll sentenceRegex t = []")
    case True
    then show ?thesis
      using over by (simp add: smartSplitText_def splitByPunctuation_width)
  next
    case False
    let ?r = "fold (sentence_step m w) (matchAll sentenceRegex t) ([], 0)"
    have e1: "smartSplitText m w t = sentence_rest m w t ?r"
      using False over by (simp add: smartSplitText_def Let_def)
    have "list_all (width_ok m w) (fst ?r)"
      by (rule fold_step_all [OF sentence_step_eq]) (simp_all add: splitByPunctuation_width width_ok_def)
    then show ?thesis
      unfolding e1 sentence_rest_eq by (simp add: splitByPunctuation_width width_ok_def)
  qed
qed

text \<open>Unfolding the segmenter on a concrete line.\<close>

lemmas seg_eval = smartSplitText_def splitByPunctuation_def forceSplitText_def
  sentence_step_def sentence_rest_def punct_step_def punct_rest_def
  forceSplit_loop.simps forceSplit_step_def fs_finish_def fs_init_def
  matchAll_def sentenceRegex_def punctRegex_def isSentenceEnd_def isClauseMark_def
  isWhiteSpace_def js_trim_def js_def Let_def

text \<open>A line of one character that is wider than the budget, through the three tiers.\<close>

lemma forceSplitText_single_char:
  assumes "w < m [c]"
  shows "forceSplitText m w [c] b = [\<lparr>u_text = [c], u_start = b, u_end = b + 1\<rparr>]"
  using assms
  by (simp add: forceSplitText_def forceSplit_loop.simps forceSplit_step_def fs_init_def
      fs_finish_def Let_def)

lemma matchAll_sentence_single_char: "matchAll sentenceRegex [c] = []"
  by (simp add: matchAll_def rmatch_sentenceRegex)

lemma splitByPunctuation_single_char:
  assumes "w < m [c]"
  shows "splitByPunctuation m w [c] b = [\<lparr>u_text = [c], u_start = b, u_end = b + 1\<rparr>]"
proof (cases "isClauseMark c")
  case True
  then have "matchAll punctRegex [c] = []"
    by (simp add: matchAll_def rmatch_punctRegex)
  then show ?thesis
    using assms by (simp add: splitByPunctuation_def forceSplitText_single_char)
next
  case False
  then have "matchAll punctRegex [c] = [(0, [c])]"
    by (simp add: matchAll_def rmatch_punctRegex Let_def)
  then show ?thesis
    using assms
    by (simp add: splitByPunctuation_def punct_step_def punct_rest_def Let_def not_le
        forceSplitText_single_char)
qed

lemma smartSplitText_single_char:
  assumes "w < m [c]"
  shows "smartSplitText m w [c] = [\<lparr>u_text = [c], u_start = 0, u_end = 1\<rparr>]"
  using assms
  by (simp add: smartSplitText_def matchAll_sentence_single_char not_le
      splitByPunctuation_single_char)

text \<open>
  Under an oracle that finds every non-empty string too wide, the loop of
  \<open>forceSplitText\<close> emits each character as a unit of its own.
\<close>

lemma forceSplitText_singletons:
  assumes wide: "\<And>s. s \<noteq> [] \<Longrightarrow> w < m s"
  shows "map u_text (forceSplitText m w t b) = map (\<lambda>c. [c]) t"
proof -
  let ?P = "\<lambda>st. fs_currentText st = [] \<and> fs_i st \<le> length t \<and>
                 map u_text (fs_units st) = map (\<lambda>c. [c]) (take (fs_i st) t)"
  let ?st = "forceSplit_loop m w t b fs_init"
  have init: "?P fs_init" by (simp add: fs_init_def)
  have step: "?P (forceSplit_step m w t b s)" if p: "?P s" and lt: "fs_i s < length t" for s
  proof -
    have over: "w < m [t ! fs_i s]" by (rule wide) simp
    have tk: "take (Suc (fs_i s)) t = take (fs_i s) t @ [t ! fs_i s]"
      using lt by (rule take_Suc_conv_app_nth)
    show ?thesis
      using p lt over by (simp add: forceSplit_step_def Let_def tk)
  qed
  have "?P ?st \<and> length t \<le> fs_i ?st"
    using forceSplit_loop_inv [where P = ?P, OF init step] by blast
  then have "fs_currentText ?st = []" "map u_text (fs_units ?st) = map (\<lambda>c. [c]) t"
    by auto
  then show ?thesis
    by (simp add: forceSplitText_def fs_finish_def)
qed

lemma smartSplitText_eval_fits:
  "smartSplitText (\<lambda>s. length s) 3 (js ''ab!cdefg'') =
     [\<lparr>u_text = js ''ab!'', u_start = 0, u_end = 3\<rparr>,
      \<lparr>u_text = js ''cde'', u_start = 3, u_end = 6\<rparr>,
      \<lparr>u_text = js ''fg'', u_start = 6, u_end = 8\<rparr>]"
  by (simp add: seg_eval)

lemma smartSplitText_eval_wide_char:
  "smartSplitText (\<lambda>s. 2 * length s) 1 (js ''a'') =
     [\<lparr>u_text = js ''a'', u_start = 0, u_end = 1\<rparr>]"
  by (simp add: seg_eval)

lemma forceSplitText_eval_all_wide:
  "forceSplitText (\<lambda>s. length s) 0 (js ''a,,'') 0 =
     [\<lparr>u_text = js ''a'', u_start = 0, u_end = 1\<rparr>,
      \<lparr>u_text = js '','', u_start = 1, u_end = 2\<rparr>,
      \<lparr>u_text = js '','', u_start = 2, u_end = 3\<rparr>]"
  by (simp add: seg_eval)

lemma smartSplitText_eval_all_wide:
  "smartSplitText (\<lambda>s. length s) 0 (js ''a,,'') =
     [\<lparr>u_text = js ''a'', u_start = 0, u_end = 1\<rparr>,
      \<lparr>u_text = js '','', u_start = 1, u_end = 2\<rparr>,
      \<lparr>u_text = js '','', u_start = 2, u_end = 3\<rparr>]"
  by (simp add: seg_eval)






lemma tiles_False_end:
  "tiles (\<lambda>c. False) pos s us \<Longrightarrow> s \<noteq> [] \<Longrightarrow> us \<noteq> [] \<and> u_end (last us) = pos + length s"
proof (induction us arbitrary: pos s)
  case Nil
  then show ?case by (cases s) auto
next
  case (Cons u us)
  then have g: "list_all (\<lambda>c. False) (take (u_start u - pos) s)"
    and tk: "take (length (u_text u)) (drop (u_start u - pos) s) = u_text u"
    and e: "u_end u = u_start u + length (u_text u)" and ne: "u_text u \<noteq> []"
    and p: "pos \<le> u_start u"
    and r: "tiles (\<lambda>c. False) (u_end u) (drop (u_end u - pos) s) us"
    by auto
  have len: "u_start u - pos + length (u_text u) \<le> length s"
    using take_drop_eq_len [OF tk ne] .
  have z: "u_start u - pos = 0"
  proof (rule ccontr)
    assume "u_start u - pos \<noteq> 0"
    then have "take (u_start u - pos) s \<noteq> []" using len ne by auto
    then show False using g by (cases "take (u_start u - pos) s") auto
  qed
  have k: "u_end u - pos = length (u_text u)" using z e p by simp
  show ?case
  proof (cases "drop (u_end u - pos) s = []")
    case True
    then have "us = []" using r by (cases us) auto
    moreover have "length s = length (u_text u)" using True len k z by simp
    ultimately show ?thesis using e z p by simp
  next
    case False
    from Cons.IH [OF r False] have "us \<noteq> []"
      "u_end (last us) = u_end u + length (drop (u_end u - pos) s)" by auto
    then show ?thesis using k len z e p by simp
  qed
qed



lemma fold_step_end:
  assumes step: "\<And>x acc. step x acc = (fst acc @ f x, fst x + length (snd x))"
  shows "snd (fold step ms (us, cp)) =
           (if ms = [] then cp else fst (last ms) + length (snd (last ms)))"
  by (induction ms arbitrary: us cp) (simp_all add: step)

lemma fold_step_last:
  assumes step: "\<And>x acc. step x acc = (fst acc @ f x, fst x + length (snd x))"
    and f: "\<And>x. x \<in> set ms \<Longrightarrow> f x \<noteq> [] \<and> u_end (last (f x)) = b + fst x + length (snd x)"
  shows "ms \<noteq> [] \<Longrightarrow>
         fst (fold step ms (us, cp)) \<noteq> [] \<and>
         u_end (last (fst (fold step ms (us, cp)))) = b + snd (fold step ms (us, cp))"
  using f
proof (induction ms arbitrary: us cp)
  case Nil
  then show ?case by simp
next
  case (Cons x ms)
  have fx: "f x \<noteq> []" "u_end (last (f x)) = b + fst x + length (snd x)"
    using Cons.prems(2) by auto
  have e: "fold step (x # ms) (us, cp) = fold step ms (us @ f x, fst x + length (snd x))"
    by (simp add: step)
  show ?case
  proof (cases "ms = []")
    case True
    then show ?thesis unfolding e using fx by simp
  next
    case False
    have "fst (fold step ms (us @ f x, fst x + length (snd x))) \<noteq> [] \<and>
          u_end (last (fst (fold step ms (us @ f x, fst x + length (snd x))))) =
            b + snd (fold step ms (us @ f x, fst x + length (snd x)))"
      using Cons.IH [OF False] Cons.prems(2) by simp
    then show ?thesis unfolding e .
  qed
qed

lemma clause_marks_not_blank:
  assumes "list_all isClauseMark s" and "s \<noteq> []"
  shows "js_trim s \<noteq> []"
proof
  assume "js_trim s = []"
  then have "list_all isWhiteSpace s" by (rule js_trim_empty)
  then have "isWhiteSpace (hd s)" "isClauseMark (hd s)"
    using assms by (cases s; simp)+
  then show False by (auto simp: isWhiteSpace_def isClauseMark_def)
qed

lemma forceSplitText_end:
  "t \<noteq> [] \<Longrightarrow> forceSplitText m w t b \<noteq> [] \<and> u_end (last (forceSplitText m w t b)) = b + length t"
  using tiles_False_end [OF forceSplitText_tiles] by blast

lemma splitByPunctuation_end:
  assumes ne: "t \<noteq> []"
  shows "splitByPunctuation m w t b \<noteq> [] \<and>
         u_end (last (splitByPunctuation m w t b)) = b + length t"
proof (cases "matchAll punctRegex t = []")
  case True
  then show ?thesis
    using forceSplitText_end [OF ne] by (simp add: splitByPunctuation_def)
next
  case False
  let ?ms = "matchAll punctRegex t"
  let ?f = "\<lambda>x. if m (snd x) \<le> w
                 then [\<lparr>u_text = snd x, u_start = b + fst x, u_end = b + fst x + length (snd x)\<rparr>]
                 else forceSplitText m w (snd x) (b + fst x)"
  let ?r = "fold (punct_step m w b) ?ms ([], 0)"
  have mt: "mtiles isClauseMark 0 t ?ms"
    unfolding matchAll_def by (rule matchAll_punct_mtiles)
  have cp: "snd ?r = fst (last ?ms) + length (snd (last ?ms))"
    using fold_step_end [of "punct_step m w b" ?f ?ms "[]" 0, OF punct_step_eq] False by simp
  have "list_all isClauseMark (drop (fst (last ?ms) + length (snd (last ?ms))) t)"
    using matchAllFrom_punct_tail [of 0 t] False by (simp add: matchAll_def)
  then have tail: "list_all isClauseMark (drop (snd ?r) t)"
    unfolding cp .
  have "tiles clauseGap b (take (snd ?r) t) (fst ?r) \<and> snd ?r \<le> length t"
  proof (rule fold_step_tiles [where f = ?f and gap = isClauseMark])
    show "mtiles isClauseMark 0 (drop 0 t) (matchAll punctRegex t)"
      using mt by simp
    show "tiles clauseGap b (take 0 t) []" by simp
    show "punct_step m w b x acc = (fst acc @ ?f x, fst x + length (snd x))" for x acc
      by (rule punct_step_eq)
    show "tiles clauseGap (b + fst x) (snd x) (?f x)" if "snd x \<noteq> []" for x
      using that by (simp add: forceSplitText_tiles_gap)
    show "clauseGap c" if "isClauseMark c" for c
      using that by (simp add: clauseGap_def)
  qed simp
  then have le: "snd ?r \<le> length t" by blast
  have lastr: "fst ?r \<noteq> [] \<and> u_end (last (fst ?r)) = b + snd ?r"
  proof (rule fold_step_last [where f = ?f, OF punct_step_eq _ False])
    fix x assume "x \<in> set ?ms"
    then have nx: "snd x \<noteq> []" using mtiles_nonempty [OF mt] by blast
    show "?f x \<noteq> [] \<and> u_end (last (?f x)) = b + fst x + length (snd x)"
      using forceSplitText_end [OF nx, of m w "b + fst x"] by simp
  qed
  have e1: "splitByPunctuation m w t b = punct_rest m w t b ?r"
    using False by (simp add: splitByPunctuation_def Let_def)
  show ?thesis
  proof (cases "snd ?r < length t")
    case True
    let ?rem = "drop (snd ?r) t"
    have rne: "?rem \<noteq> []" using True by simp
    have tr: "js_trim ?rem \<noteq> []" using tail rne by (rule clause_marks_not_blank)
    have l: "snd ?r + length ?rem = length t" using True by simp
    show ?thesis
      unfolding e1 punct_rest_eq
      using True tr forceSplitText_end [OF rne, of m w "b + snd ?r"] l by simp
  next
    case False
    then have "snd ?r = length t" using le by simp
    then show ?thesis
      unfolding e1 punct_rest_eq using False lastr by simp
  qed
qed

lemma smartSplitText_end:
  assumes ne: "line \<noteq> []"
  shows "smartSplitText m w line \<noteq> [] \<and>
         u_end (last (smartSplitText m w line)) \<le> length line \<and>
         list_all isWhiteSpace (drop (u_end (last (smartSplitText m w line))) line) \<and>
         (u_end (last (smartSplitText m w line)) < length line \<longrightarrow>
            w < m line \<and> isSentenceEnd (line ! (u_end (last (smartSplitText m w line)) - 1)))"
proof (cases "m line \<le> w")
  case True
  then show ?thesis by (simp add: smartSplitText_def)
next
  case over: False
  show ?thesis
  proof (cases "matchAll sentenceRegex line = []")
    case True
    then show ?thesis
      using over splitByPunctuation_end [OF ne, of m w 0] by (simp add: smartSplitText_def)
  next
    case False
    let ?ms = "matchAll sentenceRegex line"
    let ?f = "\<lambda>x. if m (snd x) \<le> w
                 then [\<lparr>u_text = snd x, u_start = fst x, u_end = fst x + length (snd x)\<rparr>]
                 else splitByPunctuation m w (snd x) (fst x)"
    let ?r = "fold (sentence_step m w) ?ms ([], 0)"
    have mt: "mtiles isSentenceEnd 0 line ?ms"
      unfolding matchAll_def by (rule matchAll_sentence_mtiles)
    have cp: "snd ?r = fst (last ?ms) + length (snd (last ?ms))"
      using fold_step_end [of "sentence_step m w" ?f ?ms "[]" 0, OF sentence_step_eq] False
      by simp
    have lm: "last ?ms \<in> set ?ms" using False by simp
    have lne: "snd (last ?ms) \<noteq> []" using mtiles_nonempty [OF mt lm] .
    have sl: "take (length (snd (last ?ms))) (drop (fst (last ?ms)) line) = snd (last ?ms)"
      using mtiles_slice [OF mt lm] by simp
    have le: "snd ?r \<le> length line"
      unfolding cp using take_drop_eq_len [OF sl lne] .
    have l0: "0 < length (snd (last ?ms))" using lne by simp
    have "isSentenceEnd (last (snd (last ?ms)))"
      using lm unfolding matchAll_def by (rule matchAllFrom_sentence_last)
    moreover have "last (snd (last ?ms)) = snd (last ?ms) ! (length (snd (last ?ms)) - 1)"
      using lne by (rule last_conv_nth)
    moreover have "snd (last ?ms) ! (length (snd (last ?ms)) - 1) =
        take (length (snd (last ?ms))) (drop (fst (last ?ms)) line) ! (length (snd (last ?ms)) - 1)"
      using sl by simp
    moreover have "\<dots> = line ! (fst (last ?ms) + (length (snd (last ?ms)) - 1))"
      using le l0 unfolding cp by simp
    moreover have "fst (last ?ms) + (length (snd (last ?ms)) - 1) = snd ?r - 1"
      unfolding cp using l0 by linarith
    ultimately have se: "isSentenceEnd (line ! (snd ?r - 1))" by simp
    have lastr: "fst ?r \<noteq> [] \<and> u_end (last (fst ?r)) = 0 + snd ?r"
    proof (rule fold_step_last [where f = ?f, OF sentence_step_eq _ False])
      fix x assume "x \<in> set ?ms"
      then have nx: "snd x \<noteq> []" using mtiles_nonempty [OF mt] by blast
      show "?f x \<noteq> [] \<and> u_end (last (?f x)) = 0 + fst x + length (snd x)"
        using splitByPunctuation_end [OF nx, of m w "fst x"] by simp
    qed
    have e1: "smartSplitText m w line = sentence_rest m w line ?r"
      using False over by (simp add: smartSplitText_def Let_def)
    show ?thesis
    proof (cases "snd ?r < length line")
      case lt: True
      let ?rem = "drop (snd ?r) line"
      have rne: "?rem \<noteq> []" using lt by simp
      have l: "snd ?r + length ?rem = length line" using lt by simp
      show ?thesis
      proof (cases "js_trim ?rem = []")
        case True
        have ws: "list_all isWhiteSpace ?rem" using True by (rule js_trim_empty)
        have u: "smartSplitText m w line = fst ?r"
          unfolding e1 sentence_rest_eq using lt True by simp
        show ?thesis
          unfolding u using lastr le ws se over by (simp add: not_le)
      next
        case False
        show ?thesis
          unfolding e1 sentence_rest_eq
          using lt False splitByPunctuation_end [OF rne, of m w "snd ?r"] l by simp
      qed
    next
      case ge: False
      then have "snd ?r = length line" using le by simp
      then show ?thesis
        unfolding e1 sentence_rest_eq using ge lastr by simp
    qed
  qed
qed

text \<open>
  Claim C5. For every line, every budget and every width oracle, every unit the
  segmenter emits fits the width budget, except a unit of a single character whose own
  width already exceeds the budget. Such a character is still emitted, alone: a line that
  consists of one character wider than the budget comes back as the one unit holding it;
  a non-empty line always yields at least one unit; the clause tier always emits units up
  to the last character of its text, so a mark that ends the text is emitted however
  wide it is; under an oracle that finds every non-empty string too wide, the hard split
  returns each character of its input as a unit of its own, in order; and for every
  oracle the units of the hard split concatenate to its whole input. The three functions
  are total, so every call returns.
\<close>

theorem smartSplitText_width_bound:
  "(\<forall>u \<in> set (smartSplitText m w line).
      m (u_text u) \<le> w \<or> (length (u_text u) = 1 \<and> w < m (u_text u))) \<and>
   (length line = 1 \<and> w < m line \<longrightarrow>
      smartSplitText m w line = [\<lparr>u_text = line, u_start = 0, u_end = 1\<rparr>]) \<and>
   (line \<noteq> [] \<longrightarrow>
      smartSplitText m w line \<noteq> [] \<and>
      splitByPunctuation m w line b \<noteq> [] \<and>
      u_end (last (splitByPunctuation m w line b)) = b + length line) \<and>
   ((\<forall>s. s \<noteq> [] \<longrightarrow> w < m s) \<longrightarrow>
      map u_text (forceSplitText m w line b) = map (\<lambda>c. [c]) line) \<and>
   concat (map u_text (forceSplitText m w line b)) = line"
proof (intro conjI impI)
  show "\<forall>u \<in> set (smartSplitText m w line).
      m (u_text u) \<le> w \<or> (length (u_text u) = 1 \<and> w < m (u_text u))"
    using smartSplitText_width [of m w line] by (simp add: list_all_iff width_ok_def)
next
  assume a: "length line = 1 \<and> w < m line"
  then obtain c where "line = [c]" by (cases line) auto
  then show "smartSplitText m w line = [\<lparr>u_text = line, u_start = 0, u_end = 1\<rparr>]"
    using a by (simp add: smartSplitText_single_char)
next
  assume "line \<noteq> []"
  then show "smartSplitText m w line \<noteq> []"
    using smartSplitText_end by blast
next
  assume "line \<noteq> []"
  then show "splitByPunctuation m w line b \<noteq> []"
    using splitByPunctuation_end by blast
next
  assume "line \<noteq> []"
  then show "u_end (last (splitByPunctuation m w line b)) = b + length line"
    using splitByPunctuation_end by blast
next
  assume "\<forall>s. s \<noteq> [] \<longrightarrow> w < m s"
  then show "map u_text (forceSplitText m w line b) = map (\<lambda>c. [c]) line"
    by (intro forceSplitText_singletons) blast
next
  show "concat (map u_text (forceSplitText m w line b)) = line"
    using forceSplitText_tiles by (rule tiles_False_concat)
qed

lemma splitByPunctuation_eval_all_wide:
  "splitByPunctuation (\<lambda>s. length s) 0 (js ''a,,'') 0 =
     [\<lparr>u_text = js ''a'', u_start = 0, u_end = 1\<rparr>,
      \<lparr>u_text = js '','', u_start = 1, u_end = 2\<rparr>,
      \<lparr>u_text = js '','', u_start = 2, u_end = 3\<rparr>]"
  by (simp add: seg_eval)

theorem smartSplitText_width_bound_witness:
  "smartSplitText (\<lambda>s. length s) 3 (js ''ab!cdefg'') =
     [\<lparr>u_text = js ''ab!'', u_start = 0, u_end = 3\<rparr>,
      \<lparr>u_text = js ''cde'', u_start = 3, u_end = 6\<rparr>,
      \<lparr>u_text = js ''fg'', u_start = 6, u_end = 8\<rparr>] \<and>
   length (js ''a'') = 1 \<and> (1::nat) < 2 * length (js ''a'') \<and>
   smartSplitText (\<lambda>s. 2 * length s) 1 (js ''a'') =
     [\<lparr>u_text = js ''a'', u_start = 0, u_end = 1\<rparr>] \<and>
   \<not> (\<exists>s::jsstring. s \<noteq> [] \<and> \<not> (0::nat) < length s) \<and>
   js ''a,,'' \<noteq> [] \<and>
   map u_text (forceSplitText (\<lambda>s. length s) 0 (js ''a,,'') 0) = [js ''a'', js '','', js '',''] \<and>
   splitByPunctuation (\<lambda>s. length s) 0 (js ''a,,'') 0 =
     [\<lparr>u_text = js ''a'', u_start = 0, u_end = 1\<rparr>,
      \<lparr>u_text = js '','', u_start = 1, u_end = 2\<rparr>,
      \<lparr>u_text = js '','', u_start = 2, u_end = 3\<rparr>] \<and>
   smartSplitText (\<lambda>s. length s) 0 (js ''a,,'') =
     [\<lparr>u_text = js ''a'', u_start = 0, u_end = 1\<rparr>,
      \<lparr>u_text = js '','', u_start = 1, u_end = 2\<rparr>,
      \<lparr>u_text = js '','', u_start = 2, u_end = 3\<rparr>]"
  using smartSplitText_width_bound [of "\<lambda>s. length s" 3 "js ''ab!cdefg''" 0]
    smartSplitText_width_bound [of "\<lambda>s. 2 * length s" 1 "js ''a''" 0]
    smartSplitText_width_bound [of "\<lambda>s. length s" 0 "js ''a,,''" 0]
  unfolding smartSplitText_eval_fits smartSplitText_eval_wide_char
    forceSplitText_eval_all_wide splitByPunctuation_eval_all_wide smartSplitText_eval_all_wide
  by (simp add: js_def)







text \<open>
  A mark that follows the last match is part of the remainder and is kept: \<open>a!!\<close>
  against a budget of two gives the units \<open>a!\<close> and \<open>!\<close>.
\<close>

lemma smartSplitText_eval_trailing_mark:
  "smartSplitText (\<lambda>s. length s) 2 (js ''a!!'') =
     [\<lparr>u_text = js ''a!'', u_start = 0, u_end = 2\<rparr>,
      \<lparr>u_text = js ''!'', u_start = 2, u_end = 3\<rparr>]"
  by (simp add: seg_eval)

section \<open>Properties of the aligners\<close>

lemma indexOfFrom_bounds:
  "indexOfFrom x k s = Some p \<Longrightarrow>
   k \<le> p \<and> p - k + length x \<le> length s \<and> take (length x) (drop (p - k) s) = x"
proof (induction s arbitrary: k)
  case Nil
  then show ?case by (simp split: if_splits)
next
  case (Cons c cs)
  show ?case
  proof (cases "take (length x) (c # cs) = x")
    case True
    then have "length (take (length x) (c # cs)) = length x" by simp
    then have "length x \<le> length (c # cs)" by (simp add: min_def split: if_splits)
    moreover have "p = k" using Cons.prems True by simp
    ultimately show ?thesis using True by simp
  next
    case False
    then have "indexOfFrom x (Suc k) cs = Some p" using Cons.prems by simp
    from Cons.IH [OF this] have a: "Suc k \<le> p" "p - Suc k + length x \<le> length cs"
      "take (length x) (drop (p - Suc k) cs) = x" by auto
    have e: "p - k = Suc (p - Suc k)" using a(1) by simp
    show ?thesis unfolding e using a by simp
  qed
qed

lemma indexOf_bounds:
  assumes "indexOf s x pos = Some p"
  shows "p + length x \<le> length s \<and> take (length x) (drop p s) = x \<and> min pos (length s) \<le> p"
proof -
  let ?st = "min pos (length s)"
  from assms have "indexOfFrom x ?st (drop ?st s) = Some p"
    by (simp add: indexOf_def Let_def)
  from indexOfFrom_bounds [OF this]
  have a: "?st \<le> p" "p - ?st + length x \<le> length (drop ?st s)"
    "take (length x) (drop (p - ?st) (drop ?st s)) = x" by auto
  have "drop (p - ?st) (drop ?st s) = drop p s" using a(1) by simp
  moreover have "p + length x \<le> length s" using a(1,2) by simp
  ultimately show ?thesis using a by simp
qed

lemma fillCells_Suc:
  "p \<le> e \<Longrightarrow> fillCells m p (Suc e) v = js_set (fillCells m p e v) e v"
  by (simp add: fillCells_def)

lemma fillCells_empty: "e \<le> p \<Longrightarrow> fillCells m p e v = m"
  by (simp add: fillCells_def)

lemma fillCells_cells:
  "e \<le> length m \<Longrightarrow>
   length (fillCells m p e v) = length m \<and>
   (\<forall>k<length m. fillCells m p e v ! k = (if p \<le> k \<and> k < e then Some v else m ! k))"
proof (induction e)
  case 0
  then show ?case by (simp add: fillCells_empty)
next
  case (Suc e)
  show ?case
  proof (cases "p \<le> e")
    case True
    have ih: "length (fillCells m p e v) = length m"
      "\<forall>k<length m. fillCells m p e v ! k = (if p \<le> k \<and> k < e then Some v else m ! k)"
      using Suc by auto
    have lt: "e < length (fillCells m p e v)" using Suc.prems ih(1) by simp
    have s: "fillCells m p (Suc e) v = (fillCells m p e v)[e := Some v]"
      using fillCells_Suc [OF True] lt by (simp add: js_set_def)
    have "(fillCells m p e v)[e := Some v] ! k =
            (if p \<le> k \<and> k < Suc e then Some v else m ! k)" if "k < length m" for k
    proof (cases "k = e")
      case True
      then show ?thesis using lt \<open>p \<le> e\<close> by simp
    next
      case False
      then have "(fillCells m p e v)[e := Some v] ! k = fillCells m p e v ! k" by simp
      also have "\<dots> = (if p \<le> k \<and> k < e then Some v else m ! k)"
        using ih(2) that by blast
      also have "\<dots> = (if p \<le> k \<and> k < Suc e then Some v else m ! k)"
        using False by (simp add: less_Suc_eq)
      finally show ?thesis .
    qed
    then show ?thesis
      unfolding s using ih(1) by simp
  next
    case False
    then have "fillCells m p (Suc e) v = m" by (simp add: fillCells_empty)
    then show ?thesis using False by auto
  qed
qed

lemma cells_ok_push:
  assumes ok: "cells_ok n spans cmap" and e: "e \<le> n"
  shows "cells_ok n (spans @ [(p, e)]) (fillCells cmap p e (int (length spans)))"
proof -
  from ok have len: "length cmap = n"
    and cells: "\<forall>k<n. cmap ! k = Some (-1) \<or>
         (\<exists>j<length spans. cmap ! k = Some (int j) \<and> fst (spans ! j) \<le> k \<and> k < snd (spans ! j))"
    by (auto simp: cells_ok_def)
  have f: "length (fillCells cmap p e (int (length spans))) = n"
    "\<forall>k<n. fillCells cmap p e (int (length spans)) ! k =
        (if p \<le> k \<and> k < e then Some (int (length spans)) else cmap ! k)"
    using fillCells_cells [of e cmap p "int (length spans)"] e len by auto
  show ?thesis
    unfolding cells_ok_def
  proof (intro conjI allI impI)
    show "length (fillCells cmap p e (int (length spans))) = n" by (rule f(1))
  next
    fix k assume k: "k < n"
    show "fillCells cmap p e (int (length spans)) ! k = Some (- 1) \<or>
          (\<exists>j<length (spans @ [(p, e)]).
              fillCells cmap p e (int (length spans)) ! k = Some (int j) \<and>
              fst ((spans @ [(p, e)]) ! j) \<le> k \<and> k < snd ((spans @ [(p, e)]) ! j))"
    proof (cases "p \<le> k \<and> k < e")
      case True
      then have "fillCells cmap p e (int (length spans)) ! k = Some (int (length spans))"
        using f(2) k by simp
      then show ?thesis using True by (auto intro!: exI [of _ "length spans"])
    next
      case False
      have "fillCells cmap p e (int (length spans)) ! k =
              (if p \<le> k \<and> k < e then Some (int (length spans)) else cmap ! k)"
        using f(2) k by blast
      then have same: "fillCells cmap p e (int (length spans)) ! k = cmap ! k"
        using False by (simp only: if_False)
      from cells k consider "cmap ! k = Some (-1)"
        | j where "j < length spans" "cmap ! k = Some (int j)"
            "fst (spans ! j) \<le> k" "k < snd (spans ! j)"
        by blast
      then show ?thesis
      proof cases
        case 1
        then show ?thesis using same by simp
      next
        case 2
        then show ?thesis
          unfolding same by (auto intro!: exI [of _ j] simp: nth_append)
      qed
    qed
  qed
qed

lemma cells_ok_valid:
  assumes "cells_ok n spans cmap"
  shows "length cmap = n \<and> (\<forall>c\<in>set cmap. c = Some (-1) \<or> (\<exists>k<length spans. c = Some (int k)))"
proof -
  have "c = Some (-1) \<or> (\<exists>k<length spans. c = Some (int k))" if "c \<in> set cmap" for c
  proof -
    from that obtain i where "i < length cmap" "cmap ! i = c"
      by (auto simp: in_set_conv_nth)
    then show ?thesis using assms by (auto simp: cells_ok_def)
  qed
  then show ?thesis using assms by (auto simp: cells_ok_def)
qed

lemma fold_invariant:
  "P a \<Longrightarrow> (\<And>x b. x \<in> set xs \<Longrightarrow> P b \<Longrightarrow> P (f x b)) \<Longrightarrow> P (fold f xs a)"
  by (induction xs arbitrary: a) auto

lemma unit_step_inv:
  assumes "align_inv T acc"
  shows "align_inv T (unit_step clean T linePos unit acc)"
proof (cases "indexOf T (clean (u_text unit)) linePos")
  case None
  then show ?thesis using assms by (simp add: unit_step_def Let_def)
next
  case (Some p)
  let ?c = "clean (u_text unit)"
  let ?d = "\<lparr>du_text = u_text unit, du_cleanedText = ?c, du_start = p, du_end = p + length ?c\<rparr>"
  from indexOf_bounds [OF Some] have b: "p + length ?c \<le> length T"
    "take (length ?c) (drop p T) = ?c" by auto
  have "cells_ok (length T) (map du_span (fst acc) @ [(p, p + length ?c)])
          (fillCells (snd acc) p (p + length ?c) (int (length (map du_span (fst acc)))))"
    using assms b(1) by (intro cells_ok_push) (simp add: align_inv_def)
  moreover have "du_located T ?d" using b by (simp add: du_located_def)
  moreover have "unit_step clean T linePos unit acc =
      (fst acc @ [?d], fillCells (snd acc) p (p + length ?c) (int (length (fst acc))))"
    using Some by (simp add: unit_step_def Let_def)
  ultimately show ?thesis
    using assms by (simp add: align_inv_def du_span_def)
qed

lemma line_step_inv:
  assumes "align_inv T (fst st, fst (snd st))"
  shows "align_inv T (fst (line_step clean split T mdLines cleanedLines i st),
                      fst (snd (line_step clean split T mdLines cleanedLines i st)))"
proof -
  have "align_inv T (fold (unit_step clean T linePos) units (fst st, fst (snd st)))"
    for linePos units
    using assms by (rule fold_invariant) (rule unit_step_inv)
  then show ?thesis
    using assms by (simp add: line_step_def Let_def split: option.splits)
qed

lemma processSubtitleText_inv:
  "align_inv (sd_cleanedText (processSubtitleText gc m cfg rawText htmlLines))
     (sd_displayUnits (processSubtitleText gc m cfg rawText htmlLines),
      sd_charToUnitMap (processSubtitleText gc m cfg rawText htmlLines))"
proof -
  let ?T = "cleanText gc cfg rawText"
  have init: "align_inv ?T (fst ([], replicate (length ?T) (Some (-1)), 0::nat),
                            fst (snd ([], replicate (length ?T) (Some (-1)), 0::nat)))"
    by (simp add: align_inv_def cells_ok_def)
  have "align_inv ?T (fst (fold (line_step clean split ?T mdLines cleanedLines) is
                             ([], replicate (length ?T) (Some (-1)), 0)),
                      fst (snd (fold (line_step clean split ?T mdLines cleanedLines) is
                             ([], replicate (length ?T) (Some (-1)), 0))))"
    for clean split mdLines cleanedLines "is"
    by (rule fold_invariant [where P = "\<lambda>st. align_inv ?T (fst st, fst (snd st))", OF init])
       (rule line_step_inv)
  then show ?thesis
    by (simp add: processSubtitleText_def Let_def)
qed

lemma reading_unit_step_inv:
  assumes "reading_inv T st"
  shows "reading_inv T (reading_unit_step T readingLine unit st)"
proof (cases "indexOf T readingLine (snd (snd st))")
  case None
  then show ?thesis using assms by (simp add: reading_unit_step_def Let_def)
next
  case (Some p)
  from indexOf_bounds [OF Some] have b: "p + length readingLine \<le> length T" by auto
  have "cells_ok (length T) (map u_span (fst st) @ [(p, p + length readingLine)])
          (fillCells (fst (snd st)) p (p + length readingLine) (int (length (map u_span (fst st)))))"
    using assms b by (intro cells_ok_push) (simp add: reading_inv_def)
  then show ?thesis
    using Some by (simp add: reading_unit_step_def Let_def reading_inv_def u_span_def)
qed

lemma reading_line_step_inv:
  assumes "reading_inv T st"
  shows "reading_inv T (reading_line_step split T displayLines readingLines i st)"
proof -
  have "reading_inv T (fold (reading_unit_step T readingLine) units st)" for readingLine units
    using assms by (rule fold_invariant) (rule reading_unit_step_inv)
  then show ?thesis
    using assms by (simp add: reading_line_step_def Let_def)
qed

lemma processText_inv:
  "cells_ok (length (rd_cleanedText (processText gc m w textLines)))
     (map u_span (rd_displayUnits (processText gc m w textLines)))
     (rd_charToUnitMap (processText gc m w textLines))"
proof -
  let ?T = "js_join [32] (map (filterTextKeepLength gc) textLines)"
  have init: "reading_inv ?T ([], replicate (length ?T) (Some (-1)), 0)"
    by (simp add: reading_inv_def cells_ok_def)
  have "reading_inv ?T (fold (reading_line_step split ?T displayLines readingLines) is
                             ([], replicate (length ?T) (Some (-1)), 0))"
    for split displayLines readingLines "is"
    by (rule fold_invariant [where P = "reading_inv ?T", OF init])
       (rule reading_line_step_inv)
  then show ?thesis
    by (simp add: processText_def Let_def reading_inv_def)
qed

text \<open>Unfolding the aligners and the filters on concrete text.\<close>

lemmas align_eval = processSubtitleText_def line_step_def unit_step_def cleanText_def
  js_index_def isEmoji_def

lemmas cells_eval = fillCells_def js_set_def indexOf_def

lemmas unicode_eval = notLNPZ_def asciiCategory_def spacesRegex_def
  isHighSurrogate_def isLowSurrogate_def codePointOf_def

lemmas filter_eval = filterTextKeepLength_def filterTextComplete_def blanks_def
  httpRegex_def wwwRegex_def domainRegex_def emailRegex_def lit_def isAlpha_def isAlnum_def
  notSpace_def isEmojiWide_def notLNPZM_def

lemmas reading_eval = processText_def reading_line_step_def reading_unit_step_def

text \<open>
  Claim C3. For every raw text and every list of lines, \<open>processSubtitleText\<close> returns a
  \<open>charToUnitMap\<close> as long as the \<open>cleanedText\<close> it returns, and each of its cells holds
  \<open>-1\<close> or the index of an element of the returned \<open>displayUnits\<close>; the same holds for
  \<open>processText\<close> with the length-preserving filter. The writes of the aligners never
  fall outside the array, since a span comes from a successful \<open>indexOf\<close>.
\<close>

theorem aligner_index_consistency:
  "length (sd_charToUnitMap (processSubtitleText gc m cfg rawText htmlLines)) =
     length (sd_cleanedText (processSubtitleText gc m cfg rawText htmlLines)) \<and>
   (\<forall>c \<in> set (sd_charToUnitMap (processSubtitleText gc m cfg rawText htmlLines)).
      c = Some (-1) \<or>
      (\<exists>k < length (sd_displayUnits (processSubtitleText gc m cfg rawText htmlLines)).
         c = Some (int k))) \<and>
   length (rd_charToUnitMap (processText gc m' w textLines)) =
     length (rd_cleanedText (processText gc m' w textLines)) \<and>
   (\<forall>c \<in> set (rd_charToUnitMap (processText gc m' w textLines)).
      c = Some (-1) \<or>
      (\<exists>k < length (rd_displayUnits (processText gc m' w textLines)). c = Some (int k)))"
proof -
  have a: "cells_ok (length (sd_cleanedText (processSubtitleText gc m cfg rawText htmlLines)))
     (map du_span (sd_displayUnits (processSubtitleText gc m cfg rawText htmlLines)))
     (sd_charToUnitMap (processSubtitleText gc m cfg rawText htmlLines))"
    using processSubtitleText_inv [of gc m cfg rawText htmlLines] by (simp add: align_inv_def)
  show ?thesis
    using cells_ok_valid [OF a] cells_ok_valid [OF processText_inv [of gc m' w textLines]]
    by simp
qed

theorem aligner_index_consistency_witness:
  "sd_charToUnitMap (processSubtitleText asciiCategory (\<lambda>s. length s)
       \<lparr>maxLineWidth = 100, cleanEmoji = True, cleanSpecialChars = True, normalizeSpaces = True\<rparr>
       (js ''Yes.'' @ [10] @ js ''No.'') None) =
     [Some 0, Some 0, Some 0, Some 0, Some 1, Some 1, Some 1] \<and>
   sd_cleanedText (processSubtitleText asciiCategory (\<lambda>s. length s)
       \<lparr>maxLineWidth = 100, cleanEmoji = True, cleanSpecialChars = True, normalizeSpaces = True\<rparr>
       (js ''Yes.'' @ [10] @ js ''No.'') None) = js ''Yes.No.'' \<and>
   map du_text (sd_displayUnits (processSubtitleText asciiCategory (\<lambda>s. length s)
       \<lparr>maxLineWidth = 100, cleanEmoji = True, cleanSpecialChars = True, normalizeSpaces = True\<rparr>
       (js ''Yes.'' @ [10] @ js ''No.'') None)) = [js ''Yes.'', js ''No.''] \<and>
   rd_charToUnitMap (processText asciiCategory (\<lambda>s. length s) 30 [js ''Yes.'', js ''No.'']) =
     [Some 0, Some 0, Some 0, Some 0, Some (-1), Some 1, Some 1, Some 1] \<and>
   rd_cleanedText (processText asciiCategory (\<lambda>s. length s) 30 [js ''Yes.'', js ''No.'']) =
     js ''Yes. No.'' \<and>
   map u_text (rd_displayUnits (processText asciiCategory (\<lambda>s. length s) 30 [js ''Yes.'', js ''No.''])) =
     [js ''Yes.'', js ''No.'']"
  using aligner_index_consistency [of asciiCategory "\<lambda>s. length s"
      "\<lparr>maxLineWidth = 100, cleanEmoji = True, cleanSpecialChars = True, normalizeSpaces = True\<rparr>"
      "js ''Yes.'' @ [10] @ js ''No.''" None "\<lambda>s. length s" 30 "[js ''Yes.'', js ''No.'']"]
  by (simp add: align_eval reading_eval filter_eval cells_eval unicode_eval seg_eval)

text \<open>
  Claim C7 on \<open>processText\<close> of the reader with length-preserving filtering, for the one
  line \<open>Yes!No.\<close> and a budget of four characters. The segmenter cuts the line into the
  units \<open>Yes!\<close> and \<open>No.\<close>, so the first unit should claim the cells 0 to 3 and the
  second the cells 4 to 6. The loop over the units searches the spoken form for the whole
  \<open>readingLine\<close> instead of the unit's own text and takes the line's length for the
  span: the first unit claims all seven cells with the span \<open>[0, 7)\<close>, the cursor moves
  to 7, the search for the second unit fails, and the second unit is never pushed.
\<close>

theorem processText_first_unit_claims_line:
  "map u_text (smartSplitText (\<lambda>s. length s) 4 (js ''Yes!No.'')) = [js ''Yes!'', js ''No.''] \<and>
   processText asciiCategory (\<lambda>s. length s) 4 [js ''Yes!No.''] =
     \<lparr>rd_displayUnits = [\<lparr>u_text = js ''Yes!'', u_start = 0, u_end = 7\<rparr>],
      rd_charToUnitMap = [Some 0, Some 0, Some 0, Some 0, Some 0, Some 0, Some 0],
      rd_cleanedText = js ''Yes!No.''\<rparr>"
  by (simp add: reading_eval filter_eval cells_eval unicode_eval seg_eval)

text \<open>
  \<open>processSubtitleText\<close> searches for each unit's own cleaned text, from the position of
  the line. On the line \<open>Yes!No.\<close> the two units get the adjacent spans \<open>[0, 4)\<close> and
  \<open>[4, 7)\<close>. On the line \<open>ha!ha!\<close> against a budget of three, the units \<open>ha!\<close> and
  \<open>ha!\<close> are both found at index 0 and both claim the cells 0 to 2; the cells 3 to 5
  keep the sentinel.
\<close>

lemma processSubtitleText_adjacent_spans:
  "sd_displayUnits (processSubtitleText asciiCategory (\<lambda>s. length s)
       \<lparr>maxLineWidth = 4, cleanEmoji = True, cleanSpecialChars = True, normalizeSpaces = True\<rparr>
       (js ''Yes!No.'') None) =
     [\<lparr>du_text = js ''Yes!'', du_cleanedText = js ''Yes!'', du_start = 0, du_end = 4\<rparr>,
      \<lparr>du_text = js ''No.'', du_cleanedText = js ''No.'', du_start = 4, du_end = 7\<rparr>] \<and>
   sd_charToUnitMap (processSubtitleText asciiCategory (\<lambda>s. length s)
       \<lparr>maxLineWidth = 4, cleanEmoji = True, cleanSpecialChars = True, normalizeSpaces = True\<rparr>
       (js ''Yes!No.'') None) =
     [Some 0, Some 0, Some 0, Some 0, Some 1, Some 1, Some 1]"
  by (simp add: align_eval cells_eval unicode_eval seg_eval)

lemma processSubtitleText_repeated_unit_overlap:
  "map u_text (smartSplitText (\<lambda>s. length s) 3 (js ''ha!ha!'')) = [js ''ha!'', js ''ha!''] \<and>
   sd_displayUnits (processSubtitleText asciiCategory (\<lambda>s. length s)
       \<lparr>maxLineWidth = 3, cleanEmoji = True, cleanSpecialChars = True, normalizeSpaces = True\<rparr>
       (js ''ha!ha!'') None) =
     [\<lparr>du_text = js ''ha!'', du_cleanedText = js ''ha!'', du_start = 0, du_end = 3\<rparr>,
      \<lparr>du_text = js ''ha!'', du_cleanedText = js ''ha!'', du_start = 0, du_end = 3\<rparr>] \<and>
   sd_charToUnitMap (processSubtitleText asciiCategory (\<lambda>s. length s)
       \<lparr>maxLineWidth = 3, cleanEmoji = True, cleanSpecialChars = True, normalizeSpaces = True\<rparr>
       (js ''ha!ha!'') None) =
     [Some 1, Some 1, Some 1, Some (-1), Some (-1), Some (-1)]"
  by (simp add: align_eval cells_eval unicode_eval seg_eval)

text \<open>
  Claim C6 on a document of three lines: a line holding only the emoji U+263A, then
  \<open>Yes.\<close> twice. The emoji line cleans to the empty string and is filtered out of
  \<open>cleanedLines\<close>, so \<open>cleanedLines[i]\<close> is the cleaned text of line \<open>i + 1\<close>. The emoji
  line takes the first span \<open>[0, 4)\<close> of \<open>Yes.Yes.\<close> and, having an empty cleaned text,
  marks no cell; the first \<open>Yes.\<close> line is mapped to the second span \<open>[4, 8)\<close>; for the
  second \<open>Yes.\<close> line \<open>cleanedLines[2]\<close> is undefined and the line is skipped.
\<close>

theorem processSubtitleText_filtered_line_shift:
  "processSubtitleText asciiCategory (\<lambda>s. length s)
     \<lparr>maxLineWidth = 100, cleanEmoji = True, cleanSpecialChars = True, normalizeSpaces = True\<rparr>
     ([9786, 10] @ js ''Yes.'' @ [10] @ js ''Yes.'') None =
   \<lparr>sd_displayUnits =
      [\<lparr>du_text = [9786], du_cleanedText = [], du_start = 0, du_end = 0\<rparr>,
       \<lparr>du_text = js ''Yes.'', du_cleanedText = js ''Yes.'', du_start = 4, du_end = 8\<rparr>],
    sd_charToUnitMap =
      [Some (-1), Some (-1), Some (-1), Some (-1), Some 1, Some 1, Some 1, Some 1],
    sd_cleanedText = js ''Yes.Yes.''\<rparr>"
  by (simp add: align_eval cells_eval unicode_eval seg_eval)

text \<open>
  Claim C1 on the line \<open>https://example.com/path hello\<close> of thirty characters. The link
  is replaced by twenty-four spaces, and the last step of \<open>filterTextKeepLength\<close>,
  \<open>.replace(/\s+/g, ' ')\<close>, then collapses them and the space that follows into one:
  the result has six characters.
\<close>

theorem filterTextKeepLength_collapses_link:
  "filterTextKeepLength asciiCategory (js ''https://example.com/path hello'') = js '' hello'' \<and>
   length (filterTextKeepLength asciiCategory (js ''https://example.com/path hello'')) = 6 \<and>
   length (js ''https://example.com/path hello'') = 30"
  by (simp add: filter_eval unicode_eval seg_eval)

section \<open>The segmenter as a method of the instance\<close>

declare forceSplit_loop_obj.simps [simp del]
declare matchAll_iter.simps [simp del]
declare forceSplit_step_obj.simps [simp del]
declare punct_step_obj.simps [simp del]
declare punct_rest_obj.simps [simp del]
declare sentence_step_obj.simps [simp del]
declare sentence_rest_obj.simps [simp del]

lemma forceSplit_step_obj_eq:
  "forceSplit_step_obj mt t b (st, this) =
     (forceSplit_step (mt (ss_context this)) (maxLineWidth (ss_config this)) t b st, this)"
  by (simp add: forceSplit_step_obj.simps forceSplit_step_def measureTextWidth_obj_def Let_def)

lemma forceSplit_loop_obj_eq:
  "forceSplit_loop_obj mt t b (st, this) =
     (forceSplit_loop (mt (ss_context this)) (maxLineWidth (ss_config this)) t b st, this)"
proof (induction "fs_variant t st" arbitrary: st rule: less_induct)
  case less
  let ?m = "mt (ss_context this)" and ?w = "maxLineWidth (ss_config this)"
  show ?case
  proof (cases "fs_i st < length t")
    case True
    have "forceSplit_loop_obj mt t b (st, this) =
            forceSplit_loop_obj mt t b (forceSplit_step ?m ?w t b st, this)"
      using True by (simp add: forceSplit_loop_obj.simps [of mt t b st this] forceSplit_step_obj_eq)
    also have "\<dots> = (forceSplit_loop ?m ?w t b (forceSplit_step ?m ?w t b st), this)"
      by (rule less.hyps [OF fs_step_variant [OF True]])
    also have "\<dots> = (forceSplit_loop ?m ?w t b st, this)"
      using True by (simp add: forceSplit_loop.simps [of ?m ?w t b st])
    finally show ?thesis .
  next
    case False
    then show ?thesis
      by (simp add: forceSplit_loop_obj.simps [of mt t b st this] forceSplit_loop.simps [of _ _ t b st])
  qed
qed

lemma forceSplitText_obj_eq:
  "forceSplitText_obj mt t b this =
     (forceSplitText (mt (ss_context this)) (maxLineWidth (ss_config this)) t b, this)"
  by (simp add: forceSplitText_obj_def forceSplit_loop_obj_eq forceSplitText_def)

lemma searchFrom_None:
  assumes nonempty: "\<And>s r. rmatch pat s = Some r \<Longrightarrow> length r < length s"
  shows "searchFrom pat s = None \<Longrightarrow> matchAllFrom pat i s = []"
proof (induction s arbitrary: i)
  case Nil
  then show ?case by (simp split: option.splits)
next
  case (Cons c cs)
  then show ?case by (simp split: option.splits prod.splits)
qed

lemma searchFrom_Some:
  assumes nonempty: "\<And>s r. rmatch pat s = Some r \<Longrightarrow> length r < length s"
  shows "searchFrom pat s = Some (j, n) \<Longrightarrow>
         n \<noteq> 0 \<and> j + n \<le> length s \<and>
         matchAllFrom pat i s =
           (i + j, take n (drop j s)) # matchAllFrom pat (i + j + n) (drop (j + n) s)"
proof (induction s arbitrary: i j)
  case Nil
  then show ?case using nonempty [of "[]"] by (auto split: option.splits)
next
  case (Cons c cs)
  show ?case
  proof (cases "rmatch pat (c # cs)")
    case None
    then obtain j' where s: "searchFrom pat cs = Some (j', n)" and j: "j = Suc j'"
      using Cons.prems by (auto split: option.splits)
    from Cons.IH [OF s, of "Suc i"] show ?thesis
      using None j by simp
  next
    case (Some r)
    have lt: "length r < Suc (length cs)" using nonempty [OF Some] by simp
    have jn: "j = 0" "n = Suc (length cs) - length r"
      using Cons.prems Some by auto
    show ?thesis
      using Some lt jn by (simp add: Let_def)
  qed
qed

lemma matchAll_iter_eq:
  assumes nonempty: "\<And>s r. rmatch pat s = Some r \<Longrightarrow> length r < length s"
  shows "k \<le> length t \<Longrightarrow>
         matchAll_iter \<lparr>re_source = pat, re_lastIndex = k\<rparr> t = matchAllFrom pat k (drop k t)"
proof (induction "length t - k" arbitrary: k rule: less_induct)
  case less
  show ?case
  proof (cases "searchFrom pat (drop k t)")
    case None
    then show ?thesis
      using less.prems searchFrom_None [OF nonempty None]
      by (simp add: matchAll_iter.simps [of _ t] regexp_exec_def)
  next
    case (Some p)
    obtain j n where p: "p = (j, n)" by (cases p)
    from searchFrom_Some [OF nonempty Some [unfolded p], of k]
    have n0: "n \<noteq> 0" and le: "j + n \<le> length (drop k t)"
      and eq: "matchAllFrom pat k (drop k t) =
          (k + j, take n (drop j (drop k t))) # matchAllFrom pat (k + j + n) (drop (j + n) (drop k t))"
      by auto
    have le': "k + j + n \<le> length t" using le less.prems by simp
    have ne: "take n (drop (k + j) t) \<noteq> []" using n0 le' by simp
    have d1: "drop j (drop k t) = drop (k + j) t" by (simp add: add.commute)
    have d2: "drop (j + n) (drop k t) = drop (k + j + n) t" by (simp add: ac_simps)
    have "length t - (k + j + n) < length t - k" using n0 le' by simp
    then have ih: "matchAll_iter \<lparr>re_source = pat, re_lastIndex = k + j + n\<rparr> t =
        matchAllFrom pat (k + j + n) (drop (k + j + n) t)"
      using less.hyps le' by blast
    have "matchAll_iter \<lparr>re_source = pat, re_lastIndex = k\<rparr> t =
        (k + j, take n (drop (k + j) t)) # matchAll_iter \<lparr>re_source = pat, re_lastIndex = k + j + n\<rparr> t"
      using less.prems Some p ne
      by (simp add: matchAll_iter.simps [of "\<lparr>re_source = pat, re_lastIndex = k\<rparr>" t] regexp_exec_def)
    then show ?thesis
      unfolding eq d1 d2 ih by simp
  qed
qed

lemma js_matchAll_sentence:
  "fst (js_matchAll (regexp_literal sentenceRegex) t) = matchAll sentenceRegex t"
  using matchAll_iter_eq [of sentenceRegex 0 t, OF sentenceRegex_nonempty]
  by (simp add: js_matchAll_def regexp_literal_def matchAll_def)

lemma js_matchAll_punct:
  "fst (js_matchAll (regexp_literal punctRegex) t) = matchAll punctRegex t"
  using matchAll_iter_eq [of punctRegex 0 t, OF punctRegex_nonempty]
  by (simp add: js_matchAll_def regexp_literal_def matchAll_def)

lemma punct_step_obj_eq:
  "punct_step_obj mt b x (us, cp, this) =
     (fst (punct_step (mt (ss_context this)) (maxLineWidth (ss_config this)) b x (us, cp)),
      snd (punct_step (mt (ss_context this)) (maxLineWidth (ss_config this)) b x (us, cp)),
      this)"
  by (simp add: punct_step_obj.simps punct_step_def measureTextWidth_obj_def
      forceSplitText_obj_eq Let_def)

lemma fold_punct_step_obj:
  "fold (punct_step_obj mt b) ms (us, cp, this) =
     (fst (fold (punct_step (mt (ss_context this)) (maxLineWidth (ss_config this)) b) ms (us, cp)),
      snd (fold (punct_step (mt (ss_context this)) (maxLineWidth (ss_config this)) b) ms (us, cp)),
      this)"
proof (induction ms arbitrary: us cp)
  case Nil
  then show ?case by simp
next
  case (Cons x ms)
  let ?m = "mt (ss_context this)" and ?w = "maxLineWidth (ss_config this)"
  have "fold (punct_step_obj mt b) (x # ms) (us, cp, this) =
        fold (punct_step_obj mt b) ms
          (fst (punct_step ?m ?w b x (us, cp)), snd (punct_step ?m ?w b x (us, cp)), this)"
    by (simp only: fold_simps punct_step_obj_eq)
  also have "\<dots> = (fst (fold (punct_step ?m ?w b) ms (punct_step ?m ?w b x (us, cp))),
                     snd (fold (punct_step ?m ?w b) ms (punct_step ?m ?w b x (us, cp))), this)"
    using Cons.IH [of "fst (punct_step ?m ?w b x (us, cp))" "snd (punct_step ?m ?w b x (us, cp))"]
    by simp
  finally show ?case by simp
qed

lemma punct_rest_obj_eq:
  "punct_rest_obj mt t b (us, cp, this) =
     (punct_rest (mt (ss_context this)) (maxLineWidth (ss_config this)) t b (us, cp), this)"
  by (simp add: punct_rest_obj.simps punct_rest_def measureTextWidth_obj_def
      forceSplitText_obj_eq Let_def)

lemma splitByPunctuation_obj_eq:
  "splitByPunctuation_obj mt t b this =
     (splitByPunctuation (mt (ss_context this)) (maxLineWidth (ss_config this)) t b, this)"
  by (simp add: splitByPunctuation_obj_def splitByPunctuation_def js_matchAll_punct
      fold_punct_step_obj punct_rest_obj_eq forceSplitText_obj_eq Let_def)

lemma sentence_step_obj_eq:
  "sentence_step_obj mt x (us, cp, this) =
     (fst (sentence_step (mt (ss_context this)) (maxLineWidth (ss_config this)) x (us, cp)),
      snd (sentence_step (mt (ss_context this)) (maxLineWidth (ss_config this)) x (us, cp)),
      this)"
  by (simp add: sentence_step_obj.simps sentence_step_def measureTextWidth_obj_def
      splitByPunctuation_obj_eq Let_def)

lemma fold_sentence_step_obj:
  "fold (sentence_step_obj mt) ms (us, cp, this) =
     (fst (fold (sentence_step (mt (ss_context this)) (maxLineWidth (ss_config this))) ms (us, cp)),
      snd (fold (sentence_step (mt (ss_context this)) (maxLineWidth (ss_config this))) ms (us, cp)),
      this)"
proof (induction ms arbitrary: us cp)
  case Nil
  then show ?case by simp
next
  case (Cons x ms)
  let ?m = "mt (ss_context this)" and ?w = "maxLineWidth (ss_config this)"
  have "fold (sentence_step_obj mt) (x # ms) (us, cp, this) =
        fold (sentence_step_obj mt) ms
          (fst (sentence_step ?m ?w x (us, cp)), snd (sentence_step ?m ?w x (us, cp)), this)"
    by (simp only: fold_simps sentence_step_obj_eq)
  also have "\<dots> = (fst (fold (sentence_step ?m ?w) ms (sentence_step ?m ?w x (us, cp))),
                     snd (fold (sentence_step ?m ?w) ms (sentence_step ?m ?w x (us, cp))), this)"
    using Cons.IH [of "fst (sentence_step ?m ?w x (us, cp))" "snd (sentence_step ?m ?w x (us, cp))"]
    by simp
  finally show ?case by simp
qed

lemma sentence_rest_obj_eq:
  "sentence_rest_obj mt t (us, cp, this) =
     (sentence_rest (mt (ss_context this)) (maxLineWidth (ss_config this)) t (us, cp), this)"
  by (simp add: sentence_rest_obj.simps sentence_rest_def measureTextWidth_obj_def
      splitByPunctuation_obj_eq Let_def)

lemma smartSplitText_obj_eq:
  "smartSplitText_obj mt t this =
     (smartSplitText (mt (ss_context this)) (maxLineWidth (ss_config this)) t, this)"
  by (simp add: smartSplitText_obj_def smartSplitText_def measureTextWidth_obj_def
      js_matchAll_sentence fold_sentence_step_obj sentence_rest_obj_eq splitByPunctuation_obj_eq Let_def)

text \<open>Unfolding the methods on a concrete instance.\<close>

lemmas obj_eval = smartSplitText_obj_def splitByPunctuation_obj_def forceSplitText_obj_def
  sentence_step_obj.simps sentence_rest_obj.simps punct_step_obj.simps punct_rest_obj.simps
  forceSplit_loop_obj.simps forceSplit_step_obj.simps measureTextWidth_obj_def
  js_matchAll_def regexp_literal_def matchAll_iter.simps regexp_exec_def
  fs_finish_def fs_init_def sentenceRegex_def punctRegex_def
  isSentenceEnd_def isClauseMark_def isWhiteSpace_def js_trim_def js_def Let_def

lemma smartSplitText_obj_eval:
  "smartSplitText_obj (\<lambda>ctx s. ctx * length s) (js ''ab!cdefg'')
     \<lparr>ss_config = \<lparr>maxLineWidth = 6, cleanEmoji = True, cleanSpecialChars = True,
                    normalizeSpaces = True\<rparr>, ss_context = 2::nat\<rparr> =
   ([\<lparr>u_text = js ''ab!'', u_start = 0, u_end = 3\<rparr>,
     \<lparr>u_text = js ''cde'', u_start = 3, u_end = 6\<rparr>,
     \<lparr>u_text = js ''fg'', u_start = 6, u_end = 8\<rparr>],
    \<lparr>ss_config = \<lparr>maxLineWidth = 6, cleanEmoji = True, cleanSpecialChars = True,
                    normalizeSpaces = True\<rparr>, ss_context = 2\<rparr>)"
  by (simp add: obj_eval)

lemma smartSplitText_obj_eval_other:
  "smartSplitText_obj (\<lambda>ctx s. ctx * length s) (js ''Hi'')
     \<lparr>ss_config = \<lparr>maxLineWidth = 6, cleanEmoji = True, cleanSpecialChars = True,
                    normalizeSpaces = True\<rparr>, ss_context = 2::nat\<rparr> =
   ([\<lparr>u_text = js ''Hi'', u_start = 0, u_end = 2\<rparr>],
    \<lparr>ss_config = \<lparr>maxLineWidth = 6, cleanEmoji = True, cleanSpecialChars = True,
                    normalizeSpaces = True\<rparr>, ss_context = 2\<rparr>)"
  by (simp add: obj_eval)

text \<open>
  Claim C8. \<open>smartSplitText\<close> as a method of the instance, with \<open>this.config\<close> and
  \<open>this.context\<close> passed through every statement and the two expressions as objects
  with their \<open>lastIndex\<close>, for every line, every instance and every oracle \<open>measureText\<close>
  that is a function of the context and the text: the call returns the instance as it
  found it; a second call with the same line, on the instance as the first call left it,
  returns the same sequence of units (texts, starts and ends, in the same order); so does
  a call made after a call on any other line; and the sequence is the value of the
  function \<open>smartSplitText\<close> of the line, the budget \<open>config.maxLineWidth\<close> and the
  oracle at the instance's context alone.
\<close>

theorem smartSplitText_deterministic:
  "snd (smartSplitText_obj measureText line this) = this \<and>
   fst (smartSplitText_obj measureText line (snd (smartSplitText_obj measureText line this))) =
     fst (smartSplitText_obj measureText line this) \<and>
   fst (smartSplitText_obj measureText line (snd (smartSplitText_obj measureText other this))) =
     fst (smartSplitText_obj measureText line this) \<and>
   fst (smartSplitText_obj measureText line this) =
     smartSplitText (measureText (ss_context this)) (maxLineWidth (ss_config this)) line"
  by (simp add: smartSplitText_obj_eq)

theorem smartSplitText_deterministic_witness:
  "fst (smartSplitText_obj (\<lambda>ctx s. ctx * length s) (js ''ab!cdefg'')
     (snd (smartSplitText_obj (\<lambda>ctx s. ctx * length s) (js ''ab!cdefg'')
        \<lparr>ss_config = \<lparr>maxLineWidth = 6, cleanEmoji = True, cleanSpecialChars = True,
                       normalizeSpaces = True\<rparr>, ss_context = 2::nat\<rparr>))) =
     [\<lparr>u_text = js ''ab!'', u_start = 0, u_end = 3\<rparr>,
      \<lparr>u_text = js ''cde'', u_start = 3, u_end = 6\<rparr>,
      \<lparr>u_text = js ''fg'', u_start = 6, u_end = 8\<rparr>] \<and>
   fst (smartSplitText_obj (\<lambda>ctx s. ctx * length s) (js ''ab!cdefg'')
     (snd (smartSplitText_obj (\<lambda>ctx s. ctx * length s) (js ''Hi'')
        \<lparr>ss_config = \<lparr>maxLineWidth = 6, cleanEmoji = True, cleanSpecialChars = True,
                       normalizeSpaces = True\<rparr>, ss_context = 2::nat\<rparr>))) =
     [\<lparr>u_text = js ''ab!'', u_start = 0, u_end = 3\<rparr>,
      \<lparr>u_text = js ''cde'', u_start = 3, u_end = 6\<rparr>,
      \<lparr>u_text = js ''fg'', u_start = 6, u_end = 8\<rparr>]"
  using smartSplitText_deterministic [of "\<lambda>ctx s. ctx * length s" "js ''ab!cdefg''"
      "\<lparr>ss_config = \<lparr>maxLineWidth = 6, cleanEmoji = True, cleanSpecialChars = True,
                     normalizeSpaces = True\<rparr>, ss_context = 2::nat\<rparr>" "js ''Hi''"]
  by (simp add: smartSplitText_obj_eval smartSplitText_obj_eval_other)

end
